theory Spec2Isabelle
  imports Complex_Main "HOL-Library.Sublist" "HOL-Library.Multiset"
begin

section \<open>Strings of UTF-16 code units\<close>

text \<open>
  A JavaScript string is a sequence of 16-bit code units, and \<open>length\<close>, \<open>slice\<close>,
  \<open>includes\<close> and the regular expressions of the detector (none has the \<open>u\<close> flag) all
  work on code units. A string is therefore a list of code units, a code unit a natural
  number; \<open>js\<close> turns an ASCII literal of the source into such a list.
\<close>

type_synonym jschar = nat
type_synonym jsstring = "jschar list"

definition js :: "string \<Rightarrow> jsstring" where
  "js s = map of_char s"

text \<open>
  \<open>String.prototype.toLowerCase\<close>. The case table of Unicode is the platform's, not the
  repository's; the table below has its ASCII and Latin-1 rows and the two rows whose
  result holds an ASCII unit: U+0130 (capital I with dot above, the one unit whose lower
  case is two units, \<open>i\<close> and U+0307) and U+212A (the Kelvin sign, to \<open>k\<close>). Every other
  unit is kept.
\<close>

definition lowerUnit :: "jschar \<Rightarrow> jsstring" where
  "lowerUnit c =
     (if 65 \<le> c \<and> c \<le> 90 then [c + 32]
      else if 192 \<le> c \<and> c \<le> 222 \<and> c \<noteq> 215 then [c + 32]
      else if c = 304 then [105, 775]
      else if c = 8490 then [107]
      else [c])"

definition toLowerCase :: "jsstring \<Rightarrow> jsstring" where
  "toLowerCase s = concat (map lowerUnit s)"

text \<open>\<open>s.includes(k)\<close>: \<open>k\<close> occurs in \<open>s\<close> as a contiguous run.\<close>

fun startsWith :: "jsstring \<Rightarrow> jsstring \<Rightarrow> bool" where
  "startsWith s [] = True"
| "startsWith [] (k # ks) = False"
| "startsWith (x # xs) (k # ks) = (x = k \<and> startsWith xs ks)"

fun js_includes :: "jsstring \<Rightarrow> jsstring \<Rightarrow> bool" where
  "js_includes [] k = (k = [])"
| "js_includes (x # xs) k = (startsWith (x # xs) k \<or> js_includes xs k)"

text \<open>
  The units that \<open>\s\<close> matches and that \<open>trim\<close> removes (white space and line
  terminators), and the units of \<open>\w\<close>, which decide \<open>\b\<close>.
\<close>

definition isSpace :: "jschar \<Rightarrow> bool" where
  "isSpace c \<longleftrightarrow>
     (9 \<le> c \<and> c \<le> 13) \<or> c = 32 \<or> c = 160 \<or> c = 5760 \<or> (8192 \<le> c \<and> c \<le> 8202)
     \<or> c = 8232 \<or> c = 8233 \<or> c = 8239 \<or> c = 8287 \<or> c = 12288 \<or> c = 65279"

definition isDigit :: "jschar \<Rightarrow> bool" where
  "isDigit c \<longleftrightarrow> 48 \<le> c \<and> c \<le> 57"

definition isWordChar :: "jschar \<Rightarrow> bool" where
  "isWordChar c \<longleftrightarrow>
     (48 \<le> c \<and> c \<le> 57) \<or> (65 \<le> c \<and> c \<le> 90) \<or> c = 95 \<or> (97 \<le> c \<and> c \<le> 122)"

definition trim :: "jsstring \<Rightarrow> jsstring" where
  "trim s = rev (dropWhile isSpace (rev (dropWhile isSpace s)))"

definition slice0 :: "nat \<Rightarrow> jsstring \<Rightarrow> jsstring" where
  "slice0 n s = take n s"

section \<open>Regular expressions\<close>

text \<open>
  The regular expressions of the source, as syntax trees, with the backtracking matcher
  of ECMAScript. Capture groups only group here (no replacement text refers to a
  capture), \<open>x?\<close> is \<open>Alt x Eps\<close>, \<open>x+\<close> is \<open>Seq x (Star x)\<close>.
\<close>

datatype regex =
    Chr jschar
  | Cls "jschar list"
  | Digit
  | Space
  | Bol
  | WordB
  | Eps
  | Seq regex regex
  | Alt regex regex
  | Star regex

definition Opt :: "regex \<Rightarrow> regex" where
  "Opt r = Alt r Eps"

definition Plus :: "regex \<Rightarrow> regex" where
  "Plus r = Seq r (Star r)"

fun seqs :: "regex list \<Rightarrow> regex" where
  "seqs [] = Eps"
| "seqs [r] = r"
| "seqs (r # rs) = Seq r (seqs rs)"

fun alts :: "regex list \<Rightarrow> regex" where
  "alts [] = Eps"
| "alts [r] = r"
| "alts (r # rs) = Alt r (alts rs)"

definition Str :: "string \<Rightarrow> regex" where
  "Str s = seqs (map (\<lambda>c. Chr (of_char c)) s)"

text \<open>
  Canonicalisation under the \<open>i\<close> flag (without \<open>u\<close>): a unit is compared by its upper
  case, and ECMAScript never lets a unit from 128 on canonicalise to an ASCII unit. Every
  pattern of the source with the \<open>i\<close> flag is ASCII, so only the ASCII rows matter.
\<close>

definition canon :: "bool \<Rightarrow> jschar \<Rightarrow> jschar" where
  "canon ic c = (if ic \<and> 97 \<le> c \<and> c \<le> 122 then c - 32 else c)"

text \<open>
  A matcher state is the unit before the current position (\<open>None\<close> at the start of the
  input) and the input still to read. \<open>rmatch ic r st\<close> lists the states in which a match
  of \<open>r\<close> from \<open>st\<close> can end, in the order in which backtracking tries them: a greedy star
  first iterates, an alternative first takes its left branch. An iteration of a star that
  consumes nothing is dropped, as ECMAScript does.
\<close>

type_synonym mstate = "jschar option \<times> jsstring"

fun progressing :: "nat \<Rightarrow> (mstate \<Rightarrow> mstate list) \<Rightarrow> mstate list \<Rightarrow> mstate list" where
  "progressing k g [] = []"
| "progressing k g (st # sts) =
     (if length (snd st) < k then g st else []) @ progressing k g sts"

primrec star :: "(mstate \<Rightarrow> mstate list) \<Rightarrow> nat \<Rightarrow> mstate \<Rightarrow> mstate list" where
  "star f 0 st = [st]"
| "star f (Suc n) st = progressing (length (snd st)) (star f n) (f st) @ [st]"

definition atWordBoundary :: "mstate \<Rightarrow> bool" where
  "atWordBoundary st =
     ((case fst st of None \<Rightarrow> False | Some p \<Rightarrow> isWordChar p)
      \<noteq> (case snd st of [] \<Rightarrow> False | x # _ \<Rightarrow> isWordChar x))"

definition unitIf :: "(jschar \<Rightarrow> bool) \<Rightarrow> mstate \<Rightarrow> mstate list" where
  "unitIf P st = (case snd st of [] \<Rightarrow> [] | x # xs \<Rightarrow> if P x then [(Some x, xs)] else [])"

primrec rmatch :: "bool \<Rightarrow> regex \<Rightarrow> mstate \<Rightarrow> mstate list" where
  "rmatch ic (Chr c) st = unitIf (\<lambda>x. canon ic x = canon ic c) st"
| "rmatch ic (Cls cs) st = unitIf (\<lambda>x. canon ic x \<in> set (map (canon ic) cs)) st"
| "rmatch ic Digit st = unitIf isDigit st"
| "rmatch ic Space st = unitIf isSpace st"
| "rmatch ic Bol st = (if fst st = None then [st] else [])"
| "rmatch ic WordB st = (if atWordBoundary st then [st] else [])"
| "rmatch ic Eps st = [st]"
| "rmatch ic (Seq a b) st = concat (map (rmatch ic b) (rmatch ic a st))"
| "rmatch ic (Alt a b) st = rmatch ic a st @ rmatch ic b st"
| "rmatch ic (Star a) st = star (rmatch ic a) (length (snd st)) st"

text \<open>
  \<open>search\<close> is \<open>RegExp.prototype.exec\<close> from a position: the leftmost start at which the
  pattern matches, with the units skipped before it and the state where the first match
  found by backtracking ends.
\<close>

fun search :: "bool \<Rightarrow> regex \<Rightarrow> jschar option \<Rightarrow> jsstring \<Rightarrow> (jsstring \<times> mstate) option" where
  "search ic r p [] =
     (case rmatch ic r (p, []) of [] \<Rightarrow> None | st # _ \<Rightarrow> Some ([], st))"
| "search ic r p (x # xs) =
     (case rmatch ic r (p, x # xs) of
        st # _ \<Rightarrow> Some ([], st)
      | [] \<Rightarrow> (case search ic r (Some x) xs of
                 None \<Rightarrow> None
               | Some (pre, st) \<Rightarrow> Some (x # pre, st)))"

definition test :: "bool \<Rightarrow> regex \<Rightarrow> jsstring \<Rightarrow> bool" where
  "test ic r s = (search ic r None s \<noteq> None)"

text \<open>\<open>s.replace(r, rep)\<close> for a pattern without the \<open>g\<close> flag: the first match only.\<close>

definition replace :: "bool \<Rightarrow> regex \<Rightarrow> jsstring \<Rightarrow> jsstring \<Rightarrow> jsstring" where
  "replace ic r rep s =
     (case search ic r None s of
        None \<Rightarrow> s
      | Some (pre, st) \<Rightarrow> pre @ rep @ snd st)"

text \<open>
  \<open>s.replace(r, rep)\<close> for a pattern with the \<open>g\<close> flag: every match, left to right, the
  next search starting where the last match ended; after an empty match the next unit is
  copied and the search goes on behind it.
\<close>

function replaceAll :: "bool \<Rightarrow> regex \<Rightarrow> jsstring \<Rightarrow> jschar option \<Rightarrow> jsstring \<Rightarrow> jsstring" where
  "replaceAll ic r rep p s =
     (case search ic r p s of
        None \<Rightarrow> s
      | Some (pre, st) \<Rightarrow>
          if length (snd st) < length s - length pre
          then pre @ rep @ replaceAll ic r rep (fst st) (snd st)
          else pre @ rep @
            (case drop (length pre) s of
               [] \<Rightarrow> []
             | y # ys \<Rightarrow> y # replaceAll ic r rep (Some y) ys))"
  by pat_completeness auto
termination
proof (relation "measure (\<lambda>(ic, r, rep, p, s). length s)", goal_cases)
  case 1
  show ?case by simp
next
  case (2 ic r rep p s x2 x y)
  then show ?case by (cases y) simp
next
  case (3 ic r rep p s x2 x y x21 x22)
  then have "length (drop (length x) s) = Suc (length x22)" by simp
  then show ?case by simp
qed

declare replaceAll.simps [simp del]

section \<open>The event-key normaliser\<close>

text \<open>
  \<open>extractEventKey\<close> builds its patterns from three source strings:
  \<^verbatim>\<open>unitSrc = (?:m|b|t|mn|bn|million|billion|trillion)\<close>,
  \<^verbatim>\<open>numberSrc = \$?\s*\d{1,3}(?:,\d{3})*(?:\.\d+)?\<close> and
  \<^verbatim>\<open>amountWithUnitSrc = numberSrc \s* unitSrc \b\<close>.
\<close>

definition unitSrc :: regex where
  "unitSrc = alts [Str ''m'', Str ''b'', Str ''t'', Str ''mn'', Str ''bn'',
                   Str ''million'', Str ''billion'', Str ''trillion'']"

definition numberSrc :: regex where
  "numberSrc = seqs [Opt (Str ''$''), Star Space,
                     Digit, Opt (Seq Digit (Opt Digit)),
                     Star (seqs [Str '','', Digit, Digit, Digit]),
                     Opt (Seq (Str ''.'') (Plus Digit))]"

definition amountWithUnitSrc :: regex where
  "amountWithUnitSrc = seqs [numberSrc, Star Space, unitSrc, WordB]"

text \<open>Words joined by \<open>\s+\<close>, as in \<^verbatim>\<open>less\s+than\<close>.\<close>

fun phrase :: "string list \<Rightarrow> regex" where
  "phrase [] = Eps"
| "phrase [w] = Str w"
| "phrase (w # ws) = seqs [Str w, Plus Space, phrase ws]"

definition exceedSrc :: regex where
  "exceedSrc = Seq (Str ''exceed'') (Opt (Alt (Str ''s'') (Str ''ing'')))"

definition surpassSrc :: regex where
  "surpassSrc = Seq (Str ''surpass'') (Opt (Alt (Str ''es'') (Str ''ing'')))"

definition comparatorWord :: regex where
  "comparatorWord = seqs [WordB,
     alts [Str ''between'', phrase [''less'', ''than''], phrase [''more'', ''than''],
           phrase [''greater'', ''than''], Str ''under'', Str ''over'', Str ''above'',
           Str ''below'', phrase [''at'', ''least''], phrase [''at'', ''most''],
           phrase [''no'', ''more'', ''than''], phrase [''no'', ''less'', ''than''],
           phrase [''or'', ''more''], phrase [''or'', ''less''], exceedSrc, surpassSrc],
     WordB]"

definition comparatorSymbol :: regex where
  "comparatorSymbol = Seq (Cls (js ''<>'')) (Opt (Str ''=''))"

definition rangeDash :: regex where
  "rangeDash = seqs [numberSrc, Opt (Seq (Star Space) unitSrc), Star Space, Str ''-'',
                     Star Space, numberSrc, Star Space, unitSrc, WordB]"

text \<open>The ten \<open>stripPatterns\<close>, in the order of the source array.\<close>

definition stripPatterns :: "regex list" where
  "stripPatterns =
    [seqs [WordB, Str ''between'', Plus Space, numberSrc, Opt (Seq (Star Space) unitSrc),
           Plus Space, Alt (Str ''and'') (Str ''to''), Plus Space, amountWithUnitSrc, WordB],
     seqs [numberSrc, Star Space, unitSrc, WordB, Star Space, Str ''-'', Star Space,
           numberSrc, Star Space, unitSrc, WordB],
     seqs [numberSrc, Star Space, Str ''-'', Star Space, amountWithUnitSrc],
     seqs [numberSrc, Plus Space, Str ''to'', Plus Space, amountWithUnitSrc, WordB],
     seqs [Alt (Str ''<='') (Str ''<''), Star Space, amountWithUnitSrc],
     seqs [Alt (Str ''>='') (Str ''>''), Star Space, amountWithUnitSrc],
     seqs [WordB,
           alts [phrase [''less'', ''than''], Str ''under'', Str ''below'',
                 phrase [''at'', ''most''], phrase [''no'', ''more'', ''than'']],
           Plus Space, amountWithUnitSrc, WordB],
     seqs [WordB,
           alts [phrase [''more'', ''than''], Str ''over'', Str ''above'',
                 phrase [''greater'', ''than''], phrase [''at'', ''least''],
                 phrase [''no'', ''less'', ''than''], exceedSrc, surpassSrc],
           Plus Space, amountWithUnitSrc, WordB],
     seqs [amountWithUnitSrc, Star Space,
           alts [Str ''+'', seqs [WordB, phrase [''or'', ''more''], WordB],
                 seqs [WordB, phrase [''and'', ''up''], WordB]]],
     seqs [amountWithUnitSrc, Star Space,
           alts [seqs [WordB, phrase [''or'', ''less''], WordB],
                 seqs [WordB, phrase [''and'', ''under''], WordB]]]]"

text \<open>
  The seven prefix patterns \<^verbatim>\<open>/^Will /i\<close> ... \<^verbatim>\<open>/^Have /i\<close>, in the order of the chained
  \<open>replace\<close> calls. None has the \<open>g\<close> flag.
\<close>

definition prefixes :: "string list" where
  "prefixes = [''Will '', ''Does '', ''Is '', ''Are '', ''Did '', ''Has '', ''Have '']"

definition stripPrefix :: "string \<Rightarrow> jsstring \<Rightarrow> jsstring" where
  "stripPrefix w s = replace True (Seq Bol (Str w)) [] s"

definition removePrefixes :: "jsstring \<Rightarrow> jsstring" where
  "removePrefixes question = fold stripPrefix prefixes question"

text \<open>
  The normalisation of Unicode punctuation: no-break space, en and em dash,
  \<open>\<le>\<close> (U+2264) and \<open>\<ge>\<close> (U+2265).
\<close>

definition normalizeUnicode :: "jsstring \<Rightarrow> jsstring" where
  "normalizeUnicode key =
     replaceAll False (Chr 8805) (js ''>='') None
       (replaceAll False (Chr 8804) (js ''<='') None
         (replaceAll False (Cls [8211, 8212]) (js ''-'') None
           (replaceAll False (Chr 160) (js '' '') None key)))"

definition shouldStripBuckets :: "jsstring \<Rightarrow> bool" where
  "shouldStripBuckets key =
     (let hasUnitAmount = test True amountWithUnitSrc key;
          hasComparatorWord = test True comparatorWord key;
          hasComparatorSymbol = test False comparatorSymbol key;
          hasRangeDash = test True rangeDash key
      in hasUnitAmount \<and> (hasComparatorWord \<or> hasComparatorSymbol \<or> hasRangeDash))"

definition stripBuckets :: "jsstring \<Rightarrow> jsstring" where
  "stripBuckets key =
     replaceAll True amountWithUnitSrc (js '' '') None
       (fold (\<lambda>pattern k. replaceAll True pattern (js '' '') None k) stripPatterns key)"

definition cleanUp :: "jsstring \<Rightarrow> jsstring" where
  "cleanUp key =
     trim
       (replaceAll False (Plus Space) (js '' '') None
         (replaceAll False (Cls (js ''?.,:;()[]{}'')) (js '' '') None
           (replaceAll False (Cls (js ''+'')) (js '' '') None
             (replaceAll False comparatorSymbol (js '' '') None key))))"

definition bucketsStripped :: "jsstring \<Rightarrow> jsstring" where
  "bucketsStripped key = (if shouldStripBuckets key then stripBuckets key else key)"

definition extractEventKey :: "jsstring \<Rightarrow> jsstring" where
  "extractEventKey question =
     (let key = removePrefixes question;
          key = normalizeUnicode key;
          key = bucketsStripped key;
          key = cleanUp key
      in toLowerCase (slice0 50 key))"

section \<open>Numbers\<close>

text \<open>
  A JavaScript number is an IEEE 754 double: a finite value, one of the two infinities,
  or NaN. A finite double is held as the rational it denotes. The two zeros are one value
  here: the additions, the multiplication by 100, the subtractions, the comparisons and
  \<open>toFixed\<close> of the detector give the same result on either.
\<close>

datatype jsnum = Fin rat | PInf | NInf | NaN

text \<open>
  Rounding to the nearest double, ties to the even significand. \<open>binade q\<close> is the
  exponent of the power of two at or below \<open>q\<close>, and \<open>-1022\<close> below the normal range; a
  double in that binade is a multiple of \<open>2\<close> to that exponent less 52. A result from
  \<open>2\<^sup>1\<^sup>0\<^sup>2\<^sup>4\<close> on is infinite.
\<close>

function expUp :: "rat \<Rightarrow> int \<Rightarrow> int" where
  "expUp q e = (if q < 2 then e else expUp (q / 2) (e + 1))"
  by pat_completeness auto
termination
proof (relation "measure (\<lambda>(q, e). nat \<lfloor>q\<rfloor>)", goal_cases)
  case 1
  show ?case by simp
next
  case (2 q e)
  then have "2 \<le> q" by simp
  then have "\<lfloor>q / 2\<rfloor> < \<lfloor>q\<rfloor>" "0 < \<lfloor>q\<rfloor>" by linarith+
  then show ?case by simp
qed

function expDown :: "rat \<Rightarrow> int \<Rightarrow> int" where
  "expDown q e = (if 1 \<le> q \<or> e \<le> - 1022 then e else expDown (q * 2) (e - 1))"
  by pat_completeness auto
termination
  by (relation "measure (\<lambda>(q, e). nat (e + 1022))") auto

declare expUp.simps [simp del] expDown.simps [simp del]

definition binade :: "rat \<Rightarrow> int" where
  "binade q = (if 1 \<le> q then expUp q 0 else expDown q 0)"

definition roundEven :: "rat \<Rightarrow> int" where
  "roundEven x =
     (let n = \<lfloor>x\<rfloor>; d = x - of_int n
      in if d < 1 / 2 then n else if 1 / 2 < d then n + 1 else if even n then n else n + 1)"

text \<open>The double nearest to a positive rational, before the test for overflow.\<close>

definition nearest :: "rat \<Rightarrow> rat" where
  "nearest q = (let u = 2 powi (binade q - 52) in of_int (roundEven (q / u)) * u)"

definition toDouble :: "rat \<Rightarrow> jsnum" where
  "toDouble q =
     (if q = 0 then Fin 0
      else if 0 < q then (if 2 ^ 1024 \<le> nearest q then PInf else Fin (nearest q))
      else (if 2 ^ 1024 \<le> nearest (- q) then NInf else Fin (- nearest (- q))))"

text \<open>
  Every finite double is a whole multiple of the least positive one, \<open>2\<^sup>-\<^sup>1\<^sup>0\<^sup>7\<^sup>4\<close>: \<open>grid\<close>.
  \<open>double\<close> holds of the special values and of the finite values on that grid.
\<close>

definition minDouble :: rat where
  "minDouble = 2 powi (- 1074)"

definition grid :: "rat \<Rightarrow> bool" where
  "grid r \<longleftrightarrow> of_int \<lfloor>r / minDouble\<rfloor> = r / minDouble"

definition double :: "jsnum \<Rightarrow> bool" where
  "double x = (case x of Fin r \<Rightarrow> grid r | _ \<Rightarrow> True)"

fun js_add :: "jsnum \<Rightarrow> jsnum \<Rightarrow> jsnum" where
  "js_add (Fin a) (Fin b) = toDouble (a + b)"
| "js_add NaN y = NaN"
| "js_add x NaN = NaN"
| "js_add PInf NInf = NaN"
| "js_add NInf PInf = NaN"
| "js_add PInf y = PInf"
| "js_add x PInf = PInf"
| "js_add NInf y = NInf"
| "js_add x NInf = NInf"

fun js_neg :: "jsnum \<Rightarrow> jsnum" where
  "js_neg (Fin a) = Fin (- a)"
| "js_neg PInf = NInf"
| "js_neg NInf = PInf"
| "js_neg NaN = NaN"

definition js_sub :: "jsnum \<Rightarrow> jsnum \<Rightarrow> jsnum" where
  "js_sub x y = js_add x (js_neg y)"

text \<open>\<open>x * k\<close> for a finite positive constant \<open>k\<close> (the source multiplies by 100 only).\<close>

fun js_scale :: "jsnum \<Rightarrow> rat \<Rightarrow> jsnum" where
  "js_scale (Fin a) k = toDouble (a * k)"
| "js_scale x k = x"

fun js_lt :: "jsnum \<Rightarrow> jsnum \<Rightarrow> bool" where
  "js_lt (Fin a) (Fin b) = (a < b)"
| "js_lt NaN y = False"
| "js_lt x NaN = False"
| "js_lt x NInf = False"
| "js_lt PInf y = False"
| "js_lt NInf y = True"
| "js_lt x PInf = True"

text \<open>
  \<open>parseFloat\<close> reads the decimal numeral at the start of a text, or \<open>Infinity\<close> with its
  sign, and rounds the numeral to the nearest double; a text that starts with neither
  gives NaN. A text is held as what \<open>parseFloat\<close> finds at its start.
\<close>

datatype numtext = Decimal rat | PlusInfinity | MinusInfinity | NoNumeral

fun parseFloat :: "numtext \<Rightarrow> jsnum" where
  "parseFloat (Decimal q) = toDouble q"
| "parseFloat PlusInfinity = PInf"
| "parseFloat MinusInfinity = NInf"
| "parseFloat NoNumeral = NaN"

text \<open>
  \<open>x.toFixed(2)\<close> is a string. Below \<open>10\<^sup>2\<^sup>1\<close> it is a sign, present when \<open>x\<close> is negative,
  and the digits of the integer \<open>n\<close> with \<open>n / 100\<close> nearest to the absolute value of \<open>x\<close>,
  the larger \<open>n\<close> on a tie: \<open>Fixed\<close>. From \<open>10\<^sup>2\<^sup>1\<close> on and for the infinities and NaN it is
  the number spelled by \<open>ToString\<close>: \<open>Spelled\<close>. \<open>numberOf\<close> is \<open>parseFloat\<close> on such a
  string; a spelled number reads back as itself.
\<close>

datatype fixed = Fixed bool nat | Spelled jsnum

fun toFixed2 :: "jsnum \<Rightarrow> fixed" where
  "toFixed2 (Fin x) =
     (if 10 ^ 21 \<le> \<bar>x\<bar> then Spelled (Fin x) else Fixed (x < 0) (nat \<lfloor>\<bar>x\<bar> * 100 + 1 / 2\<rfloor>))"
| "toFixed2 x = Spelled x"

fun numberOf :: "fixed \<Rightarrow> jsnum" where
  "numberOf (Fixed negative n) = toDouble ((if negative then - 1 else 1) * of_nat n / 100)"
| "numberOf (Spelled x) = x"

section \<open>Markets and opportunities\<close>

text \<open>
  Each read of a market's prices in the source is
  \<^verbatim>\<open>parseFloat(JSON.parse(m.outcomePrices)[0])\<close>. \<open>JSON.parse\<close> is the platform's; the
  field \<open>outcomePrices\<close> holds what \<^verbatim>\<open>JSON.parse(m.outcomePrices)[0]\<close> does on the market's
  price string: \<open>None\<close> when it throws (the field is missing, the string is not JSON,
  or is JSON \<open>null\<close>), else the text that \<open>parseFloat\<close> is given. \<open>volume24hr\<close> is a
  number of the parsed response.
\<close>

record market =
  question :: jsstring
  outcomePrices :: "numtext option"
  volume24hr :: jsnum
  slug :: jsstring

datatype error =
    InvalidPrices
  | NotAFunction

datatype otype = Underbook | Overbook | Contradiction

text \<open>The \<^verbatim>\<open>{question, yesPrice, slug}\<close> objects of an opportunity's \<open>markets\<close> array.\<close>

record leg =
  legQuestion :: jsstring
  yesPrice :: jsnum
  legSlug :: jsstring

record opportunity =
  otype :: otype
  eventName :: jsstring
  markets :: "leg list"
  totalProb :: fixed
  edge :: fixed
  oppVolume24hr :: jsnum

section \<open>The exclusion filter\<close>

definition excludeKeywords :: "jsstring list" where
  "excludeKeywords = map js [''perform'', ''halftime show'', ''headline'', ''lineup'',
                             ''opening act'', ''surprise guest'']"

definition shouldExcludeMarket :: "jsstring \<Rightarrow> bool" where
  "shouldExcludeMarket q =
     (let questionLower = toLowerCase q
      in list_ex (\<lambda>keyword. js_includes questionLower keyword) excludeKeywords)"

section \<open>Inverse questions\<close>

text \<open>
  \<open>s.split(/\s+/)\<close>: the pieces between the maximal runs of white space; a string that
  starts or ends with white space has an empty first or last piece, and the empty string
  splits into one empty piece.
\<close>

function splitWs :: "jsstring \<Rightarrow> jsstring list" where
  "splitWs [] = [[]]"
| "splitWs (x # xs) =
     (if isSpace x then [] # splitWs (dropWhile isSpace xs)
      else (case splitWs xs of [] \<Rightarrow> [[x]] | w # ws \<Rightarrow> (x # w) # ws))"
  by pat_completeness auto
termination
  by (relation "measure length") (auto simp: less_Suc_eq_le length_dropWhile_le)

text \<open>
  A \<open>Set\<close> built from an array keeps one copy of each element; only membership and
  \<open>size\<close> are read.
\<close>

definition newSet :: "'a list \<Rightarrow> 'a list" where
  "newSet xs = remdups xs"

definition calculateTextOverlap :: "jsstring \<Rightarrow> jsstring \<Rightarrow> rat" where
  "calculateTextOverlap s1 s2 =
     (let words1 = newSet (splitWs s1);
          words2 = newSet (splitWs s2);
          intersection = newSet (filter (\<lambda>x. x \<in> set words2) words1);
          union = newSet (words1 @ words2)
      in of_nat (length intersection) / of_nat (length union))"

definition negatives :: "jsstring list" where
  "negatives = map js [''not'', ''won'' @ [CHR 0x27] @ ''t'', ''doesn'' @ [CHR 0x27] @ ''t'',
                       ''no '', ''less than'', ''under'']"

definition hasNeg :: "jsstring \<Rightarrow> bool" where
  "hasNeg qLower = list_ex (\<lambda>neg. js_includes qLower neg) negatives"

definition areInverse :: "jsstring \<Rightarrow> jsstring \<Rightarrow> bool" where
  "areInverse q1 q2 =
     (let q1Lower = toLowerCase q1;
          q2Lower = toLowerCase q2;
          q1HasNeg = hasNeg q1Lower;
          q2HasNeg = hasNeg q2Lower
      in if q1HasNeg \<noteq> q2HasNeg
         then 1 / 2 < calculateTextOverlap q1Lower q2Lower
         else False)"

section \<open>Grouping by event key\<close>

text \<open>
  \<open>groups\<close> is a plain object used as a dictionary: an association list in insertion
  order. \<^verbatim>\<open>if (!groups[eventKey]) groups[eventKey] = []; groups[eventKey].push(market)\<close>
  reads the key through the prototype chain. A key the object owns holds an array (truthy).
  Of the properties that \<open>Object.prototype\<close> supplies, only \<open>constructor\<close> and \<open>__proto__\<close>
  are lower-case names, so only they can be event keys; both are truthy and have no
  \<open>push\<close>, and the call throws a TypeError.
\<close>

type_synonym groups = "(jsstring \<times> market list) list"

definition inheritedKeys :: "jsstring list" where
  "inheritedKeys = map js [''constructor'', ''__proto__'']"

definition pushMarket :: "groups \<Rightarrow> jsstring \<Rightarrow> market \<Rightarrow> error + groups" where
  "pushMarket groups eventKey m =
     (if eventKey \<in> fst ` set groups
      then Inr (map (\<lambda>(k, ms). if k = eventKey then (k, ms @ [m]) else (k, ms)) groups)
      else if eventKey \<in> set inheritedKeys then Inl NotAFunction
      else Inr (groups @ [(eventKey, [m])]))"

fun groupInto :: "groups \<Rightarrow> market list \<Rightarrow> error + groups" where
  "groupInto groups [] = Inr groups"
| "groupInto groups (m # ms) =
     (case pushMarket groups (extractEventKey (question m)) m of
        Inl e \<Rightarrow> Inl e
      | Inr groups' \<Rightarrow> groupInto groups' ms)"

definition groupByEvent :: "market list \<Rightarrow> error + groups" where
  "groupByEvent ms = groupInto [] ms"

text \<open>
  \<open>Object.entries\<close> lists the keys that are array indices (canonical decimal numerals
  below \<open>2\<^sup>3\<^sup>2 - 1\<close>) first, in ascending numeric order, then the other keys in
  insertion order.
\<close>

definition decimal :: "jsstring \<Rightarrow> nat" where
  "decimal k = foldl (\<lambda>a d. 10 * a + (d - 48)) 0 k"

definition arrayIndex :: "jsstring \<Rightarrow> nat option" where
  "arrayIndex k =
     (if k \<noteq> [] \<and> list_all isDigit k \<and> (k = [48] \<or> hd k \<noteq> 48) \<and> decimal k < 4294967295
      then Some (decimal k) else None)"

definition indexOf :: "jsstring \<times> market list \<Rightarrow> nat" where
  "indexOf g = (case arrayIndex (fst g) of None \<Rightarrow> 0 | Some n \<Rightarrow> n)"

definition objectEntries :: "groups \<Rightarrow> groups" where
  "objectEntries g =
     sort_key indexOf (filter (\<lambda>e. arrayIndex (fst e) \<noteq> None) g)
     @ filter (\<lambda>e. arrayIndex (fst e) = None) g"

section \<open>Strategy 1: the outcomes of one event\<close>

text \<open>The \<open>reduce\<close> that sums the YES prices as percentages, from \<open>0\<close>.\<close>

fun sumYes :: "jsnum \<Rightarrow> market list \<Rightarrow> error + jsnum" where
  "sumYes acc [] = Inr acc"
| "sumYes acc (m # ms) =
     (case outcomePrices m of
        None \<Rightarrow> Inl InvalidPrices
      | Some prices0 \<Rightarrow> sumYes (js_add acc (js_scale (parseFloat prices0) 100)) ms)"

text \<open>The \<open>map\<close> that builds the \<open>markets\<close> array of an opportunity; it parses again.\<close>

fun legs :: "market list \<Rightarrow> error + leg list" where
  "legs [] = Inr []"
| "legs (m # ms) =
     (case outcomePrices m of
        None \<Rightarrow> Inl InvalidPrices
      | Some prices0 \<Rightarrow>
          (case legs ms of
             Inl e \<Rightarrow> Inl e
           | Inr ls \<Rightarrow>
               Inr (\<lparr>legQuestion = question m, yesPrice = parseFloat prices0, legSlug = slug m\<rparr>
                    # ls)))"

definition sumVolume :: "market list \<Rightarrow> jsnum" where
  "sumVolume ms = foldl (\<lambda>s m. js_add s (volume24hr m)) (Fin 0) ms"

definition underbook :: "jsstring \<Rightarrow> market list \<Rightarrow> jsnum \<Rightarrow> error + opportunity list" where
  "underbook name eventMarkets tp =
     (case legs eventMarkets of
        Inl e \<Rightarrow> Inl e
      | Inr ls \<Rightarrow> Inr [\<lparr>otype = Underbook, eventName = name, markets = ls,
                       totalProb = toFixed2 tp,
                       edge = toFixed2 (js_sub (Fin 100) tp),
                       oppVolume24hr = sumVolume eventMarkets\<rparr>])"

definition overbook :: "jsstring \<Rightarrow> market list \<Rightarrow> jsnum \<Rightarrow> error + opportunity list" where
  "overbook name eventMarkets tp =
     (case legs eventMarkets of
        Inl e \<Rightarrow> Inl e
      | Inr ls \<Rightarrow> Inr [\<lparr>otype = Overbook, eventName = name, markets = ls,
                       totalProb = toFixed2 tp,
                       edge = toFixed2 (js_sub tp (Fin 100)),
                       oppVolume24hr = sumVolume eventMarkets\<rparr>])"

text \<open>The body of the loop over the entries of \<open>eventGroups\<close>, for one entry.\<close>

definition checkEvent :: "jsstring \<times> market list \<Rightarrow> error + opportunity list" where
  "checkEvent entry =
     (if length (snd entry) < 2 then Inr []
      else
        (case sumYes (Fin 0) (snd entry) of
           Inl e \<Rightarrow> Inl e
         | Inr tp \<Rightarrow>
             (case (if js_lt tp (Fin 98) \<and> 2 \<le> length (snd entry)
                    then underbook (fst entry) (snd entry) tp else Inr []) of
                Inl e \<Rightarrow> Inl e
              | Inr us \<Rightarrow>
                  (case (if js_lt (Fin 102) tp \<and> 2 \<le> length (snd entry)
                         then overbook (fst entry) (snd entry) tp else Inr []) of
                     Inl e \<Rightarrow> Inl e
                   | Inr os \<Rightarrow> Inr (us @ os)))))"

fun checkEvents :: "groups \<Rightarrow> error + opportunity list" where
  "checkEvents [] = Inr []"
| "checkEvents (g # gs) =
     (case checkEvent g of
        Inl e \<Rightarrow> Inl e
      | Inr a \<Rightarrow> (case checkEvents gs of Inl e \<Rightarrow> Inl e | Inr b \<Rightarrow> Inr (a @ b)))"

section \<open>Strategy 2: contradictory pairs\<close>

definition vs :: "jsstring \<Rightarrow> jsstring \<Rightarrow> jsstring" where
  "vs q1 q2 = q1 @ js '' vs '' @ q2"

text \<open>The body of the inner loop, for the pair \<open>(m1, m2)\<close>.\<close>

definition checkPair :: "market \<Rightarrow> market \<Rightarrow> error + opportunity list" where
  "checkPair m1 m2 =
     (if areInverse (question m1) (question m2) then
        (case outcomePrices m1 of
           None \<Rightarrow> Inl InvalidPrices
         | Some prices1 \<Rightarrow>
             (case outcomePrices m2 of
                None \<Rightarrow> Inl InvalidPrices
              | Some prices2 \<Rightarrow>
                  (let yes1 = parseFloat prices1;
                       yes2 = parseFloat prices2;
                       combined = js_scale (js_add yes1 yes2) 100
                   in if js_lt combined (Fin 98)
                      then Inr [\<lparr>otype = Contradiction,
                                 eventName = vs (question m1) (question m2),
                                 markets =
                                   [\<lparr>legQuestion = question m1, yesPrice = yes1, legSlug = slug m1\<rparr>,
                                    \<lparr>legQuestion = question m2, yesPrice = yes2, legSlug = slug m2\<rparr>],
                                 totalProb = toFixed2 combined,
                                 edge = toFixed2 (js_sub (Fin 100) combined),
                                 oppVolume24hr = js_add (volume24hr m1) (volume24hr m2)\<rparr>]
                      else Inr [])))
      else Inr [])"

fun pairsWith :: "market \<Rightarrow> market list \<Rightarrow> error + opportunity list" where
  "pairsWith m1 [] = Inr []"
| "pairsWith m1 (m2 # ms) =
     (case checkPair m1 m2 of
        Inl e \<Rightarrow> Inl e
      | Inr a \<Rightarrow> (case pairsWith m1 ms of Inl e \<Rightarrow> Inl e | Inr b \<Rightarrow> Inr (a @ b)))"

fun findContradictions :: "market list \<Rightarrow> error + opportunity list" where
  "findContradictions [] = Inr []"
| "findContradictions (m1 # ms) =
     (case pairsWith m1 ms of
        Inl e \<Rightarrow> Inl e
      | Inr a \<Rightarrow> (case findContradictions ms of Inl e \<Rightarrow> Inl e | Inr b \<Rightarrow> Inr (a @ b)))"

section \<open>The scan\<close>

text \<open>
  \<^verbatim>\<open>opportunities.sort((a, b) => parseFloat(b.edge) - parseFloat(a.edge))\<close>.
  \<open>Array.prototype.sort\<close> is stable: \<open>a\<close> goes behind \<open>b\<close> only when the comparator is
  positive (a NaN result counts as \<open>0\<close>). It is modelled as a stable insertion sort.
\<close>

definition compareEdge :: "opportunity \<Rightarrow> opportunity \<Rightarrow> jsnum" where
  "compareEdge a b = js_sub (numberOf (edge b)) (numberOf (edge a))"

fun insertByEdge :: "opportunity \<Rightarrow> opportunity list \<Rightarrow> opportunity list" where
  "insertByEdge a [] = [a]"
| "insertByEdge a (b # bs) =
     (if js_lt (Fin 0) (compareEdge a b) then b # insertByEdge a bs else a # b # bs)"

definition sortByEdge :: "opportunity list \<Rightarrow> opportunity list" where
  "sortByEdge xs = foldr insertByEdge xs []"

definition validMarkets :: "market list \<Rightarrow> market list" where
  "validMarkets ms = filter (\<lambda>m. \<not> shouldExcludeMarket (question m)) ms"

definition detectArbitrage :: "market list \<Rightarrow> error + opportunity list" where
  "detectArbitrage ms =
     (case groupByEvent (validMarkets ms) of
        Inl e \<Rightarrow> Inl e
      | Inr eventGroups \<Rightarrow>
          (case checkEvents (objectEntries eventGroups) of
             Inl e \<Rightarrow> Inl e
           | Inr opportunities \<Rightarrow>
               (case findContradictions (validMarkets ms) of
                  Inl e \<Rightarrow> Inl e
                | Inr contradictions \<Rightarrow> Inr (sortByEdge (opportunities @ contradictions)))))"

section \<open>Notions of the specification\<close>

text \<open>
  The definitions of this section are not translations of source functions: they say in
  the words of the specification what the source is compared with.
\<close>

text \<open>A string starts with a prefix, letters compared without case.\<close>

fun startsWithCI :: "jsstring \<Rightarrow> jsstring \<Rightarrow> bool" where
  "startsWithCI s [] = True"
| "startsWithCI [] (k # ks) = False"
| "startsWithCI (x # xs) (k # ks) = (canon True x = canon True k \<and> startsWithCI xs ks)"

text \<open>Drop the prefix \<open>w\<close> from \<open>s\<close> when \<open>s\<close> starts with it.\<close>

definition dropPrefixCI :: "string \<Rightarrow> jsstring \<Rightarrow> jsstring" where
  "dropPrefixCI w s = (if startsWithCI s (js w) then drop (length w) s else s)"







text \<open>
  The sum of the YES prices of a list of markets in per cent, in exact arithmetic on the
  decimal numerals of the price texts.
\<close>

definition percent :: "market \<Rightarrow> rat" where
  "percent m = (case outcomePrices m of Some (Decimal q) \<Rightarrow> q * 100 | _ \<Rightarrow> 0)"

definition exactSum :: "market list \<Rightarrow> rat" where
  "exactSum ms = sum_list (map percent ms)"

text \<open>\<open>x >= y\<close> on numbers: false when either is NaN.\<close>

definition js_ge :: "jsnum \<Rightarrow> jsnum \<Rightarrow> bool" where
  "js_ge x y \<longleftrightarrow> x \<noteq> NaN \<and> y \<noteq> NaN \<and> \<not> js_lt x y"

section \<open>A market list for the examples\<close>

text \<open>
  Three buckets of one metric, a question with its negation, and a halftime-show
  question whose price field cannot be parsed.
\<close>

definition bucketA :: market where
  "bucketA = \<lparr>question = js ''Will X spend $50B-$100B?'',
               outcomePrices = Some (Decimal (30 / 100)), volume24hr = Fin 1000, slug = js ''a''\<rparr>"

definition bucketB :: market where
  "bucketB = \<lparr>question = js ''Will X spend $100B-$150B?'',
               outcomePrices = Some (Decimal (25 / 100)), volume24hr = Fin 2000, slug = js ''b''\<rparr>"

definition bucketC :: market where
  "bucketC = \<lparr>question = js ''Will X spend less than $50B?'',
               outcomePrices = Some (Decimal (20 / 100)), volume24hr = Fin 500, slug = js ''c''\<rparr>"

definition rainYes :: market where
  "rainYes = \<lparr>question = js ''Will it rain tomorrow'',
               outcomePrices = Some (Decimal (30 / 100)), volume24hr = Fin 100, slug = js ''d''\<rparr>"

definition rainNo :: market where
  "rainNo = \<lparr>question = js ''Will it not rain tomorrow'',
              outcomePrices = Some (Decimal (12341 / 100000)), volume24hr = Fin 200, slug = js ''e''\<rparr>"

definition halftime :: market where
  "halftime = \<lparr>question = js ''Who will play the halftime show?'',
                outcomePrices = None, volume24hr = Fin 300, slug = js ''f''\<rparr>"

definition exampleMarkets :: "market list" where
  "exampleMarkets = [bucketA, halftime, bucketB, rainYes, bucketC, rainNo]"

definition exampleUnderbook :: opportunity where
  "exampleUnderbook =
     \<lparr>otype = Underbook, eventName = js ''x spend'',
      markets = [\<lparr>legQuestion = js ''Will X spend $50B-$100B?'', yesPrice = toDouble (30 / 100),
                   legSlug = js ''a''\<rparr>,
                 \<lparr>legQuestion = js ''Will X spend $100B-$150B?'', yesPrice = toDouble (25 / 100),
                   legSlug = js ''b''\<rparr>,
                 \<lparr>legQuestion = js ''Will X spend less than $50B?'', yesPrice = toDouble (20 / 100),
                   legSlug = js ''c''\<rparr>],
      totalProb = Fixed False 7500, edge = Fixed False 2500, oppVolume24hr = Fin 3500\<rparr>"

definition exampleContradiction :: opportunity where
  "exampleContradiction =
     \<lparr>otype = Contradiction,
      eventName = js ''Will it rain tomorrow vs Will it not rain tomorrow'',
      markets = [\<lparr>legQuestion = js ''Will it rain tomorrow'', yesPrice = toDouble (30 / 100),
                   legSlug = js ''d''\<rparr>,
                 \<lparr>legQuestion = js ''Will it not rain tomorrow'',
                   yesPrice = toDouble (12341 / 100000), legSlug = js ''e''\<rparr>],
      totalProb = Fixed False 4234, edge = Fixed False 5766, oppVolume24hr = Fin 300\<rparr>"

section \<open>What a pattern can match\<close>

text \<open>
  Five over-approximations of the words a pattern matches, computed on its syntax tree:
  the pattern may match the empty word; it may match a word without a digit; a word that
  starts with \<open>p\<close> or \<open>P\<close>; a word that ends with \<open>s\<close> or \<open>S\<close>; a word in which \<open>s\<close> or \<open>S\<close>
  is followed at once by \<open>p\<close> or \<open>P\<close>.
\<close>

definition isP :: "jschar \<Rightarrow> bool" where
  "isP c \<longleftrightarrow> c = 112 \<or> c = 80"

definition isS :: "jschar \<Rightarrow> bool" where
  "isS c \<longleftrightarrow> c = 115 \<or> c = 83"

primrec nullable :: "regex \<Rightarrow> bool" where
  "nullable (Chr c) = False"
| "nullable (Cls cs) = False"
| "nullable Digit = False"
| "nullable Space = False"
| "nullable Bol = True"
| "nullable WordB = True"
| "nullable Eps = True"
| "nullable (Seq a b) = (nullable a \<and> nullable b)"
| "nullable (Alt a b) = (nullable a \<or> nullable b)"
| "nullable (Star a) = True"


primrec startsP :: "regex \<Rightarrow> bool" where
  "startsP (Chr c) = isP c"
| "startsP (Cls cs) = list_ex isP cs"
| "startsP Digit = False"
| "startsP Space = False"
| "startsP Bol = False"
| "startsP WordB = False"
| "startsP Eps = False"
| "startsP (Seq a b) = (startsP a \<or> nullable a \<and> startsP b)"
| "startsP (Alt a b) = (startsP a \<or> startsP b)"
| "startsP (Star a) = startsP a"

primrec endsS :: "regex \<Rightarrow> bool" where
  "endsS (Chr c) = isS c"
| "endsS (Cls cs) = list_ex isS cs"
| "endsS Digit = False"
| "endsS Space = False"
| "endsS Bol = False"
| "endsS WordB = False"
| "endsS Eps = False"
| "endsS (Seq a b) = (endsS b \<or> nullable b \<and> endsS a)"
| "endsS (Alt a b) = (endsS a \<or> endsS b)"
| "endsS (Star a) = endsS a"

primrec hasSP :: "regex \<Rightarrow> bool" where
  "hasSP (Chr c) = False"
| "hasSP (Cls cs) = False"
| "hasSP Digit = False"
| "hasSP Space = False"
| "hasSP Bol = False"
| "hasSP WordB = False"
| "hasSP Eps = False"
| "hasSP (Seq a b) = (hasSP a \<or> hasSP b \<or> endsS a \<and> startsP b)"
| "hasSP (Alt a b) = (hasSP a \<or> hasSP b)"
| "hasSP (Star a) = (hasSP a \<or> endsS a \<and> startsP a)"



text \<open>
  Two more, which depend on where a match stands: the pattern may match the empty word
  between an \<open>s\<close> and a \<open>p\<close>; it may match a word that ends with \<open>s\<close> where a \<open>p\<close> follows.
  A word boundary is no match between the two letters.
\<close>

primrec nullSp :: "regex \<Rightarrow> bool" where
  "nullSp (Chr c) = False"
| "nullSp (Cls cs) = False"
| "nullSp Digit = False"
| "nullSp Space = False"
| "nullSp Bol = False"
| "nullSp WordB = False"
| "nullSp Eps = True"
| "nullSp (Seq a b) = (nullSp a \<and> nullSp b)"
| "nullSp (Alt a b) = (nullSp a \<or> nullSp b)"
| "nullSp (Star a) = True"

primrec endsSp :: "regex \<Rightarrow> bool" where
  "endsSp (Chr c) = isS c"
| "endsSp (Cls cs) = list_ex isS cs"
| "endsSp Digit = False"
| "endsSp Space = False"
| "endsSp Bol = False"
| "endsSp WordB = False"
| "endsSp Eps = False"
| "endsSp (Seq a b) = (endsSp b \<or> endsSp a \<and> nullSp b)"
| "endsSp (Alt a b) = (endsSp a \<or> endsSp b)"
| "endsSp (Star a) = endsSp a"





text \<open>
  A pattern that cannot match the empty word, cannot start at a \<open>p\<close>, cannot run over
  \<open>sp\<close> and cannot end between the two letters: where a text holds \<open>sp\<close>, no match of it
  takes the \<open>s\<close> or the \<open>p\<close>.
\<close>

definition inert :: "regex \<Rightarrow> bool" where
  "inert r \<longleftrightarrow> \<not> hasSP r \<and> \<not> endsSp r \<and> \<not> nullable r \<and> \<not> startsP r"


section \<open>Evaluation rules for the normaliser\<close>

lemma extractEventKey_unfold:
  "extractEventKey q =
     toLowerCase (slice0 50 (cleanUp (bucketsStripped (normalizeUnicode (removePrefixes q)))))"
  by (simp add: extractEventKey_def)

lemma shouldStripBuckets_unfold:
  "shouldStripBuckets key \<longleftrightarrow>
     test True amountWithUnitSrc key \<and>
     (test True comparatorWord key \<or> test False comparatorSymbol key \<or> test True rangeDash key)"
  by (simp add: shouldStripBuckets_def)

lemmas regex_eval =
  replaceAll.simps js_def Str_def Opt_def Plus_def unitIf_def canon_def isSpace_def isDigit_def isWordChar_def
  atWordBoundary_def test_def replace_def unitSrc_def numberSrc_def amountWithUnitSrc_def
  exceedSrc_def surpassSrc_def comparatorWord_def comparatorSymbol_def rangeDash_def
  stripPatterns_def prefixes_def stripPrefix_def removePrefixes_def normalizeUnicode_def
  shouldStripBuckets_unfold stripBuckets_def bucketsStripped_def cleanUp_def
  extractEventKey_unfold toLowerCase_def lowerUnit_def slice0_def trim_def

lemmas text_eval =
  js_def toLowerCase_def lowerUnit_def hasNeg_def negatives_def calculateTextOverlap_def
  newSet_def isSpace_def excludeKeywords_def shouldExcludeMarket_def Let_def

lemma floor_rat_numeral: "\<lfloor>numeral a / (numeral b :: rat)\<rfloor> = numeral a div numeral b"
  using floor_divide_of_int_eq [of "numeral a" "numeral b", where ?'a = rat] by simp

lemmas number_eval = toDouble_def nearest_def binade_def expUp.simps expDown.simps
  roundEven_def Let_def floor_rat_numeral js_sub_def

section \<open>The prefix patterns\<close>

lemma search_anchored_later: "search ic (Seq Bol r) (Some c) s = None"
  by (induction s arbitrary: c) simp_all

lemma replace_anchored:
  "replace ic (Seq Bol r) rep s =
     (case rmatch ic r (None, s) of [] \<Rightarrow> s | st # _ \<Rightarrow> rep @ snd st)"
  by (cases s) (simp_all add: replace_def search_anchored_later split: list.splits)

lemma rmatch_Str_snd:
  "map snd (rmatch True (Str w) (p, s)) =
     (if startsWithCI s (js w) then [drop (length w) s] else [])"
proof (induction w arbitrary: p s)
  case Nil
  then show ?case by (simp add: Str_def js_def)
next
  case (Cons c w)
  show ?case
  proof (cases w)
    case Nil
    then show ?thesis
      by (cases s) (simp_all add: Str_def js_def unitIf_def)
  next
    case (Cons d w')
    have step: "Str (c # w) = Seq (Chr (of_char c)) (Str w)"
      using Cons by (simp add: Str_def)
    show ?thesis
    proof (cases s)
      case Nil
      then show ?thesis by (simp add: step unitIf_def js_def)
    next
      case (Cons x xs)
      then show ?thesis
        using Cons.IH [of "Some x" xs]
        by (auto simp add: step unitIf_def js_def map_eq_Cons_conv split: if_splits)
    qed
  qed
qed

lemma stripPrefix_eq: "stripPrefix w s = dropPrefixCI w s"
proof -
  have "map snd (rmatch True (Str w) (None, s)) =
      (if startsWithCI s (js w) then [drop (length w) s] else [])"
    by (rule rmatch_Str_snd)
  then show ?thesis
    by (auto simp: stripPrefix_def replace_anchored dropPrefixCI_def split: list.splits if_splits)
qed

lemma removePrefixes_eq: "removePrefixes q = fold dropPrefixCI prefixes q"
proof -
  have "stripPrefix = dropPrefixCI" by (intro ext) (rule stripPrefix_eq)
  then show ?thesis by (simp add: removePrefixes_def)
qed

text \<open>
  C6, as stated, fails: the seven \<open>replace\<close> calls are chained, each working on what the
  one before left, so the question \<open>Will Does it rain?\<close> loses both \<open>Will\<close> and \<open>Does\<close>:
  its key is \<open>it rain\<close>, not \<open>does it rain\<close>.
\<close>

theorem stacked_prefixes_both_stripped:
  "extractEventKey (js ''Will Does it rain?'') = js ''it rain''
   \<and> extractEventKey (js ''Will Does it rain?'') \<noteq> js ''does it rain''"
  by (simp add: regex_eval)

text \<open>
  C6, amended: for every question the normaliser drops each of the seven prefixes that
  stands at the start of what is left, letters compared without case, once each and in
  the order Will, Does, Is, Are, Did, Has, Have. So a question that starts with
  \<open>Will Does\<close> loses both words, whatever follows, and one that starts with \<open>Does Will\<close>
  loses \<open>Does\<close> only.
\<close>

theorem removePrefixes_in_order:
  "removePrefixes q =
     fold dropPrefixCI [''Will '', ''Does '', ''Is '', ''Are '', ''Did '', ''Has '', ''Have ''] q
   \<and> removePrefixes (js ''Will Does '' @ r) =
       fold dropPrefixCI [''Is '', ''Are '', ''Did '', ''Has '', ''Have ''] r
   \<and> removePrefixes (js ''Does Will '' @ r) = js ''Will '' @ r"
proof (intro conjI)
  show "removePrefixes q =
      fold dropPrefixCI [''Will '', ''Does '', ''Is '', ''Are '', ''Did '', ''Has '', ''Have ''] q"
    by (simp add: removePrefixes_eq prefixes_def)
  show "removePrefixes (js ''Will Does '' @ r) =
      fold dropPrefixCI [''Is '', ''Are '', ''Did '', ''Has '', ''Have ''] r"
    by (simp add: removePrefixes_eq prefixes_def dropPrefixCI_def js_def canon_def)
  show "removePrefixes (js ''Does Will '' @ r) = js ''Will '' @ r"
    by (simp add: removePrefixes_eq prefixes_def dropPrefixCI_def js_def canon_def)
qed

theorem removePrefixes_in_order_witness:
  "removePrefixes (js ''Will Does it rain?'') = js ''it rain?''
   \<and> removePrefixes (js ''Does Will it rain?'') = js ''Will it rain?''
   \<and> removePrefixes (js ''is it raining?'') = js ''it raining?''"
proof (intro conjI)
  show "removePrefixes (js ''Will Does it rain?'') = js ''it rain?''"
    using removePrefixes_in_order [of "js ''Will Does it rain?''" "js ''it rain?''"]
    by (simp add: dropPrefixCI_def js_def canon_def)
  show "removePrefixes (js ''Does Will it rain?'') = js ''Will it rain?''"
    using removePrefixes_in_order [of "js ''Does Will it rain?''" "js ''it rain?''"]
    by (simp add: dropPrefixCI_def js_def canon_def)
  show "removePrefixes (js ''is it raining?'') = js ''it raining?''"
    using removePrefixes_in_order [of "js ''is it raining?''" "[]"]
    by (simp add: dropPrefixCI_def js_def canon_def)
qed

section \<open>Bucket questions\<close>

lemma key_X_50_100: "extractEventKey (js ''Will X spend $50B-$100B?'') = js ''x spend''"
  by (simp add: regex_eval)

lemma key_X_100_150: "extractEventKey (js ''Will X spend $100B-$150B?'') = js ''x spend''"
  by (simp add: regex_eval)

lemma key_X_less_50: "extractEventKey (js ''Will X spend less than $50B?'') = js ''x spend''"
  by (simp add: regex_eval)

lemma key_rain: "extractEventKey (js ''Will it rain tomorrow'') = js ''it rain tomorrow''"
  by (simp add: regex_eval)

lemma key_not_rain:
  "extractEventKey (js ''Will it not rain tomorrow'') = js ''it not rain tomorrow''"
  by (simp add: regex_eval)

lemma key_DOGE_50_100:
  "extractEventKey (js ''Will DOGE spend $50B-$100B?'') = js ''doge spend''"
  by (simp add: regex_eval)

section \<open>What a replacement leaves of a string\<close>

lemma progressing_suffix:
  assumes "\<And>st st'. st' \<in> set (g st) \<Longrightarrow> suffix (snd st') (snd st)"
    and "\<forall>st \<in> set sts. suffix (snd st) s"
    and "st' \<in> set (progressing k g sts)"
  shows "suffix (snd st') s"
  using assms(2,3)
proof (induction sts)
  case Nil
  then show ?case by simp
next
  case (Cons a sts)
  then show ?case
    by (auto split: if_splits dest!: assms(1) intro: suffix_order.trans)
qed

lemma star_suffix:
  assumes "\<And>st st'. st' \<in> set (f st) \<Longrightarrow> suffix (snd st') (snd st)"
  shows "st' \<in> set (star f n st) \<Longrightarrow> suffix (snd st') (snd st)"
proof (induction n arbitrary: st st')
  case 0
  then show ?case by simp
next
  case (Suc n)
  from Suc.prems consider "st' = st" | "st' \<in> set (progressing (length (snd st)) (star f n) (f st))"
    by auto
  then show ?case
  proof cases
    case 1
    then show ?thesis by simp
  next
    case 2
    have "\<forall>a \<in> set (f st). suffix (snd a) (snd st)" using assms by blast
    from progressing_suffix [OF Suc.IH this 2] show ?thesis .
  qed
qed

lemma rmatch_suffix: "st' \<in> set (rmatch ic r st) \<Longrightarrow> suffix (snd st') (snd st)"
proof (induction r arbitrary: st st')
  case (Seq a b)
  from Seq.prems obtain mid where m: "mid \<in> set (rmatch ic a st)"
    and e: "st' \<in> set (rmatch ic b mid)" by auto
  from Seq.IH(1) [OF m] Seq.IH(2) [OF e] show ?case
    by (rule suffix_order.trans [rotated])
next
  case (Star a)
  then show ?case using star_suffix [of "rmatch ic a"] by auto
qed (auto simp: unitIf_def suffix_def split: list.splits if_splits)

lemma search_parts:
  "search ic r p s = Some (pre, st) \<Longrightarrow> set pre \<subseteq> set s \<and> set (snd st) \<subseteq> set s"
proof (induction s arbitrary: p pre st)
  case Nil
  then have "st \<in> set (rmatch ic r (p, []))" by (auto split: list.splits)
  from rmatch_suffix [OF this] have "set (snd st) \<subseteq> set []"
    by (auto dest: set_mono_suffix)
  with Nil show ?case by (auto split: list.splits)
next
  case (Cons x xs)
  show ?case
  proof (cases "rmatch ic r (p, x # xs)")
    case Nil
    with Cons.prems obtain pre' where "search ic r (Some x) xs = Some (pre', st)"
      and "pre = x # pre'" by (auto split: option.splits)
    with Cons.IH show ?thesis by fastforce
  next
    case (Cons a as)
    with Cons.prems have "pre = []" and "st = a" by auto
    moreover have "suffix (snd a) (x # xs)"
      using rmatch_suffix [of a ic r "(p, x # xs)"] Cons by simp
    then have "set (snd a) \<subseteq> set (x # xs)" by (rule set_mono_suffix)
    ultimately show ?thesis by simp
  qed
qed

lemma set_replace: "set (replace ic r rep s) \<subseteq> set s \<union> set rep"
  using search_parts [of ic r None s]
  by (auto simp: replace_def split: option.splits)

lemma set_replaceAll: "set (replaceAll ic r rep p s) \<subseteq> set s \<union> set rep"
proof (induction ic r rep p s rule: replaceAll.induct)
  case (1 ic r rep p s)
  show ?case
  proof (cases "search ic r p s")
    case None
    then show ?thesis by (simp add: replaceAll.simps)
  next
    case (Some a)
    obtain pre st where a: "a = (pre, st)" by (cases a)
    from search_parts [of ic r p s pre st] Some a
    have parts: "set pre \<subseteq> set s" "set (snd st) \<subseteq> set s" by auto
    show ?thesis
    proof (cases "length (snd st) < length s - length pre")
      case True
      from "1.IH"(1) [OF Some a [symmetric] True] parts Some a True
      show ?thesis by (subst replaceAll.simps) auto
    next
      case False
      show ?thesis
      proof (cases "drop (length pre) s")
        case Nil
        with Some a False parts show ?thesis by (subst replaceAll.simps) auto
      next
        case (Cons y ys)
        have "set (drop (length pre) s) \<subseteq> set s" by (rule set_drop_subset)
        with Cons have y: "y \<in> set s" "set ys \<subseteq> set s" by auto
        from "1.IH"(2) [OF Some a [symmetric] False Cons] y parts Some a False Cons
        show ?thesis by (subst replaceAll.simps) auto
      qed
    qed
  qed
qed

section \<open>The length of a key\<close>

lemma length_toLowerCase_le: "length (toLowerCase s) \<le> 2 * length s"
  by (induction s) (simp_all add: toLowerCase_def lowerUnit_def)

lemma extractEventKey_length_le_100: "length (extractEventKey q) \<le> 100"
proof -
  have "length (extractEventKey q) \<le> 2 * length (slice0 50 (cleanUp (bucketsStripped
      (normalizeUnicode (removePrefixes q)))))"
    unfolding extractEventKey_unfold by (rule length_toLowerCase_le)
  also have "\<dots> \<le> 100" by (simp add: slice0_def)
  finally show ?thesis .
qed

lemma set_fold_replaceAll:
  "set (fold (\<lambda>pattern k. replaceAll ic pattern rep None k) ps key) \<subseteq> set key \<union> set rep"
proof (induction ps arbitrary: key)
  case Nil
  show ?case by simp
next
  case (Cons a ps)
  have "set (fold (\<lambda>pattern k. replaceAll ic pattern rep None k) ps (replaceAll ic a rep None key))
      \<subseteq> set (replaceAll ic a rep None key) \<union> set rep" by (rule Cons.IH)
  with set_replaceAll [of ic a rep None key] show ?case by auto
qed

lemma set_removePrefixes: "set (removePrefixes q) \<subseteq> set q"
proof -
  have "set (fold stripPrefix ws q) \<subseteq> set q" for ws
  proof (induction ws arbitrary: q)
    case Nil
    show ?case by simp
  next
    case (Cons w ws)
    have "set (stripPrefix w q) \<subseteq> set q"
      using set_replace [of True "Seq Bol (Str w)" "[]" q] by (simp add: stripPrefix_def)
    with Cons.IH [of "stripPrefix w q"] show ?case by auto
  qed
  then show ?thesis by (simp add: removePrefixes_def)
qed

lemma set_normalizeUnicode: "set (normalizeUnicode key) \<subseteq> set key \<union> {32, 45, 60, 61, 62}"
proof -
  let ?a = "replaceAll False (Chr 160) (js '' '') None key"
  let ?b = "replaceAll False (Cls [8211, 8212]) (js ''-'') None ?a"
  let ?c = "replaceAll False (Chr 8804) (js ''<='') None ?b"
  have a: "set ?a \<subseteq> set key \<union> {32}"
    using set_replaceAll [of False "Chr 160" "js '' ''" None key] by (simp add: js_def)
  have b: "set ?b \<subseteq> set ?a \<union> {45}"
    using set_replaceAll [of False "Cls [8211, 8212]" "js ''-''" None ?a] by (simp add: js_def)
  have c: "set ?c \<subseteq> set ?b \<union> {60, 61}"
    using set_replaceAll [of False "Chr 8804" "js ''<=''" None ?b] by (simp add: js_def)
  have d: "set (normalizeUnicode key) \<subseteq> set ?c \<union> {62, 61}"
    using set_replaceAll [of False "Chr 8805" "js ''>=''" None ?c]
    by (simp add: js_def normalizeUnicode_def)
  from a b c d show ?thesis by blast
qed

lemma set_bucketsStripped: "set (bucketsStripped key) \<subseteq> set key \<union> {32}"
proof -
  let ?f = "fold (\<lambda>pattern k. replaceAll True pattern (js '' '') None k) stripPatterns key"
  have "set ?f \<subseteq> set key \<union> {32}"
    using set_fold_replaceAll [of True "js '' ''" stripPatterns key] by (simp add: js_def)
  moreover have "set (replaceAll True amountWithUnitSrc (js '' '') None ?f) \<subseteq> set ?f \<union> {32}"
    using set_replaceAll [of True amountWithUnitSrc "js '' ''" None ?f] by (simp add: js_def)
  ultimately show ?thesis by (auto simp: bucketsStripped_def stripBuckets_def)
qed

lemma set_trim: "set (trim s) \<subseteq> set s"
proof
  fix x assume "x \<in> set (trim s)"
  then have "x \<in> set (dropWhile isSpace (rev (dropWhile isSpace s)))" by (simp add: trim_def)
  then have "x \<in> set (rev (dropWhile isSpace s))" by (rule set_dropWhileD)
  then have "x \<in> set (dropWhile isSpace s)" by simp
  then show "x \<in> set s" by (rule set_dropWhileD)
qed

lemma set_cleanUp: "set (cleanUp key) \<subseteq> set key \<union> {32}"
proof -
  let ?a = "replaceAll False comparatorSymbol (js '' '') None key"
  let ?b = "replaceAll False (Cls (js ''+'')) (js '' '') None ?a"
  let ?c = "replaceAll False (Cls (js ''?.,:;()[]{}'')) (js '' '') None ?b"
  let ?d = "replaceAll False (Plus Space) (js '' '') None ?c"
  have a: "set ?a \<subseteq> set key \<union> {32}"
    using set_replaceAll [of False comparatorSymbol "js '' ''" None key] by (simp add: js_def)
  have b: "set ?b \<subseteq> set ?a \<union> {32}"
    using set_replaceAll [of False "Cls (js ''+'')" "js '' ''" None ?a] by (simp add: js_def)
  have c: "set ?c \<subseteq> set ?b \<union> {32}"
    using set_replaceAll [of False "Cls (js ''?.,:;()[]{}'')" "js '' ''" None ?b]
    by (simp add: js_def)
  have d: "set ?d \<subseteq> set ?c \<union> {32}"
    using set_replaceAll [of False "Plus Space" "js '' ''" None ?c] by (simp add: js_def)
  have "set (cleanUp key) \<subseteq> set ?d" unfolding cleanUp_def by (rule set_trim)
  with a b c d show ?thesis by blast
qed

lemma set_cleaned_key:
  "set (cleanUp (bucketsStripped (normalizeUnicode (removePrefixes q))))
     \<subseteq> set q \<union> {32, 45, 60, 61, 62}"
  using set_cleanUp [of "bucketsStripped (normalizeUnicode (removePrefixes q))"]
    set_bucketsStripped [of "normalizeUnicode (removePrefixes q)"]
    set_normalizeUnicode [of "removePrefixes q"] set_removePrefixes [of q]
  by blast

lemma length_toLowerCase_plain: "304 \<notin> set s \<Longrightarrow> length (toLowerCase s) = length s"
  by (induction s) (simp_all add: toLowerCase_def lowerUnit_def)

lemma extractEventKey_length_le_50:
  assumes "304 \<notin> set q"
  shows "length (extractEventKey q) \<le> 50"
proof -
  let ?k = "cleanUp (bucketsStripped (normalizeUnicode (removePrefixes q)))"
  have "304 \<notin> set ?k" using set_cleaned_key [of q] assms by auto
  then have "304 \<notin> set (slice0 50 ?k)" by (auto simp: slice0_def dest: in_set_takeD)
  then have "length (extractEventKey q) = length (slice0 50 ?k)"
    unfolding extractEventKey_unfold by (rule length_toLowerCase_plain)
  then show ?thesis by (simp add: slice0_def)
qed

lemma lowerUnit_fixed: "c \<in> set (lowerUnit x) \<Longrightarrow> lowerUnit c = [c]"
  by (auto simp: lowerUnit_def split: if_splits)

lemma toLowerCase_idem: "toLowerCase (toLowerCase s) = toLowerCase s"
proof -
  have "\<forall>c \<in> set t. lowerUnit c = [c] \<Longrightarrow> toLowerCase t = t" for t
    by (induction t) (simp_all add: toLowerCase_def)
  moreover have "\<forall>c \<in> set (toLowerCase s). lowerUnit c = [c]"
    by (auto simp: toLowerCase_def dest: lowerUnit_fixed)
  ultimately show ?thesis by blast
qed

lemma extractEventKey_lower:
  "toLowerCase (extractEventKey q) = extractEventKey q
   \<and> (\<forall>c \<in> set (extractEventKey q). \<not> (65 \<le> c \<and> c \<le> 90))"
proof
  show "toLowerCase (extractEventKey q) = extractEventKey q"
    unfolding extractEventKey_unfold by (rule toLowerCase_idem)
  show "\<forall>c \<in> set (extractEventKey q). \<not> (65 \<le> c \<and> c \<le> 90)"
    unfolding extractEventKey_unfold
    by (auto simp: toLowerCase_def lowerUnit_def split: if_splits)
qed

text \<open>
  C7 at an input with U+0130. The normaliser is total, its key is in lower case
  (\<open>extractEventKey_lower\<close>), has at most 50 units when the question has no U+0130
  (\<open>extractEventKey_length_le_50\<close>) and at most 100 in general. But the question
  \<open>Will \<close>U+0130\<open>stanbul be chosen to host the 2036 Summer Olympic Games?\<close> is cut to its
  first 50 units and lower-cased afterwards; U+0130 becomes two units and the key has 51.
\<close>

theorem key_of_51_units:
  "length (extractEventKey
     (js ''Will '' @ [304] @ js ''stanbul be chosen to host the 2036 Summer Olympic Games?'')) = 51"
  by (simp add: regex_eval)

section \<open>Bucket questions with any subject\<close>






















lemmas pattern_shape =
  Str_def Opt_def Plus_def unitSrc_def numberSrc_def amountWithUnitSrc_def exceedSrc_def
  surpassSrc_def comparatorWord_def comparatorSymbol_def rangeDash_def stripPatterns_def
  inert_def isDigit_def isP_def isS_def



lemma inert_rangeDash: "inert rangeDash"
  by (simp add: pattern_shape)












































section \<open>Inverse questions: the test\<close>

lemma startsWith_prefix: "startsWith s k \<longleftrightarrow> prefix k s"
  by (induction s k rule: startsWith.induct) auto

lemma js_includes_sublist: "js_includes s k \<longleftrightarrow> sublist k s"
proof (induction s)
  case Nil
  show ?case by simp
next
  case (Cons x xs)
  then show ?case
    by (simp add: startsWith_prefix sublist_Cons_right)
qed







section \<open>Doubles\<close>

lemma expUp_small: "q < 2 \<Longrightarrow> expUp q e = e"
  by (subst expUp.simps) simp

lemma expUp_big: "\<not> q < 2 \<Longrightarrow> expUp q e = expUp (q / 2) (e + 1)"
  by (subst expUp.simps) simp

lemma expDown_stop: "1 \<le> q \<or> e \<le> - 1022 \<Longrightarrow> expDown q e = e"
  by (subst expDown.simps) simp

lemma expDown_go: "\<not> (1 \<le> q \<or> e \<le> - 1022) \<Longrightarrow> expDown q e = expDown (q * 2) (e - 1)"
  by (subst expDown.simps) simp

lemma expUp_ge: "e \<le> expUp q e"
proof (induction q e rule: expUp.induct)
  case (1 q e)
  show ?case
  proof (cases "q < 2")
    case True
    then show ?thesis by (simp add: expUp_small)
  next
    case False
    with 1 have "e + 1 \<le> expUp (q / 2) (e + 1)" by simp
    with False show ?thesis by (simp add: expUp_big)
  qed
qed

lemma powi_step: "(2::rat) powi (a - e) = 2 powi (a - (e + 1)) * 2"
  using power_int_add_1 [of "2::rat" "a - (e + 1)"] by simp

lemma expUp_le: "1 \<le> q \<Longrightarrow> 2 powi (expUp q e - e) \<le> q"
proof (induction q e rule: expUp.induct)
  case (1 q e)
  show ?case
  proof (cases "q < 2")
    case True
    with 1 show ?thesis by (simp add: expUp_small)
  next
    case False
    then have h: "1 \<le> q / 2" by simp
    from 1(1) [OF False h] have "2 powi (expUp (q / 2) (e + 1) - (e + 1)) \<le> q / 2" .
    then have "2 powi (expUp (q / 2) (e + 1) - e) \<le> q"
      by (simp add: powi_step [of _ e])
    with False show ?thesis by (simp add: expUp_big)
  qed
qed

lemma expDown_bounds: "- 1022 \<le> e \<Longrightarrow> - 1022 \<le> expDown q e \<and> expDown q e \<le> e"
proof (induction q e rule: expDown.induct)
  case (1 q e)
  show ?case
  proof (cases "1 \<le> q \<or> e \<le> - 1022")
    case True
    with 1(2) show ?thesis by (simp add: expDown_stop)
  next
    case False
    with 1 have "- 1022 \<le> expDown (q * 2) (e - 1) \<and> expDown (q * 2) (e - 1) \<le> e - 1" by simp
    with False show ?thesis by (simp add: expDown_go)
  qed
qed

lemma expDown_le:
  "0 < q \<Longrightarrow> q < 2 \<Longrightarrow> - 1022 \<le> e \<Longrightarrow>
     expDown q e = - 1022 \<or> 2 powi (expDown q e - e) \<le> q"
proof (induction q e rule: expDown.induct)
  case (1 q e)
  show ?case
  proof (cases "1 \<le> q \<or> e \<le> - 1022")
    case True
    then have s: "expDown q e = e" by (rule expDown_stop)
    from True 1(4) have "1 \<le> q \<or> e = - 1022" by auto
    then show ?thesis by (auto simp: s)
  next
    case False
    then have "0 < q * 2" "q * 2 < 2" "- 1022 \<le> e - 1" using 1(2) by simp_all
    from 1(1) [OF False this]
    have "expDown (q * 2) (e - 1) = - 1022 \<or> 2 powi (expDown (q * 2) (e - 1) - (e - 1)) \<le> q * 2" .
    moreover have "(2::rat) powi (expDown (q * 2) (e - 1) - (e - 1))
        = 2 powi (expDown (q * 2) (e - 1) - e) * 2"
      using powi_step [of "expDown (q * 2) (e - 1)" "e - 1"] by simp
    ultimately show ?thesis using False by (auto simp: expDown_go)
  qed
qed

lemma binade_ge: "- 1022 \<le> binade q"
  using expUp_ge [of 0 q] expDown_bounds [of 0 q] by (simp add: binade_def)

lemma minDouble_pos: "0 < minDouble"
  unfolding minDouble_def by (rule zero_less_power_int) simp

lemma ulp_minDouble:
  assumes "- 1022 \<le> b"
  shows "(2::rat) powi (b - 52) = 2 ^ nat (b + 1022) * minDouble"
proof -
  have "b - 52 = int (nat (b + 1022)) + (- 1074)" using assms by linarith
  then have "(2::rat) powi (b - 52) = 2 powi (int (nat (b + 1022)) + (- 1074))" by (rule arg_cong)
  also have "\<dots> = 2 powi int (nat (b + 1022)) * 2 powi (- 1074)"
    by (rule power_int_add) simp
  finally show ?thesis by (simp only: power_int_of_nat minDouble_def)
qed

lemma ulp_ge_minDouble: "minDouble \<le> 2 powi (binade q - 52)"
proof -
  have "(1::rat) \<le> 2 ^ nat (binade q + 1022)" by simp
  then have "1 * minDouble \<le> 2 ^ nat (binade q + 1022) * minDouble"
    using minDouble_pos by (intro mult_right_mono) simp_all
  then show ?thesis by (simp only: ulp_minDouble [OF binade_ge] mult_1)
qed

lemma ulp_le:
  assumes "minDouble \<le> q"
  shows "2 powi (binade q - 52) \<le> q"
proof -
  have q: "0 < q" using assms minDouble_pos by linarith
  have low: "(2::rat) powi (binade q - 52) \<le> 2 powi binade q"
    by (rule power_int_increasing) simp_all
  show ?thesis
  proof (cases "1 \<le> q")
    case True
    with expUp_le [of q 0] have "2 powi binade q \<le> q" by (simp add: binade_def)
    with low show ?thesis by linarith
  next
    case False
    with expDown_le [of q 0] q have "binade q = - 1022 \<or> 2 powi binade q \<le> q"
      by (simp add: binade_def)
    then show ?thesis
    proof
      assume b: "binade q = - 1022"
      have "(2::rat) powi (binade q - 52) = minDouble"
        using ulp_minDouble [of "binade q"] b by simp
      with assms show ?thesis by simp
    next
      assume "2 powi binade q \<le> q"
      with low show ?thesis by linarith
    qed
  qed
qed

lemma roundEven_bounds: "\<lfloor>x\<rfloor> \<le> roundEven x \<and> roundEven x \<le> \<lfloor>x\<rfloor> + 1"
  by (simp add: roundEven_def Let_def)

lemma nearest_nonneg:
  assumes "0 \<le> q"
  shows "0 \<le> nearest q"
proof -
  define u :: rat where "u = 2 powi (binade q - 52)"
  have u: "0 < u" unfolding u_def by (rule zero_less_power_int) simp
  with assms have "0 \<le> q / u" by simp
  then have "0 \<le> \<lfloor>q / u\<rfloor>" by simp
  with roundEven_bounds [of "q / u"] have "0 \<le> roundEven (q / u)" by linarith
  with u have "0 \<le> of_int (roundEven (q / u)) * u" by simp
  then show ?thesis by (simp only: nearest_def Let_def u_def)
qed

lemma nearest_pos:
  assumes "minDouble \<le> q"
  shows "0 < nearest q"
proof -
  define u :: rat where "u = 2 powi (binade q - 52)"
  have u: "0 < u" unfolding u_def by (rule zero_less_power_int) simp
  from ulp_le [OF assms] have "u \<le> q" by (simp only: u_def)
  with u have "1 \<le> q / u" by (simp add: le_divide_eq)
  then have "1 \<le> \<lfloor>q / u\<rfloor>" by simp
  with roundEven_bounds [of "q / u"] have "0 < roundEven (q / u)" by linarith
  with u have "0 < of_int (roundEven (q / u)) * u" by simp
  then show ?thesis by (simp only: nearest_def Let_def u_def)
qed

lemma grid_iff: "grid r \<longleftrightarrow> (\<exists>k::int. r / minDouble = of_int k)"
  unfolding grid_def by (metis floor_of_int)

lemma grid_nearest: "grid (nearest q)"
proof -
  define m where "m = roundEven (q / 2 powi (binade q - 52))"
  have "nearest q = of_int m * (2 ^ nat (binade q + 1022) * minDouble)"
    by (simp only: nearest_def Let_def m_def ulp_minDouble [OF binade_ge])
  then have "nearest q / minDouble = of_int (m * 2 ^ nat (binade q + 1022))"
    using minDouble_pos by simp
  then show ?thesis unfolding grid_iff by blast
qed

lemma grid_minus: "grid r \<Longrightarrow> grid (- r)"
  unfolding grid_iff by (metis minus_divide_left of_int_minus)

lemma grid_zero: "grid 0"
  by (simp add: grid_def)

lemma grid_diff:
  assumes "grid x" and "grid y" and "x < y"
  shows "minDouble \<le> y - x"
proof -
  from assms(1,2) obtain k l :: int
    where k: "x / minDouble = of_int k" and l: "y / minDouble = of_int l"
    unfolding grid_iff by blast
  have "x / minDouble < y / minDouble"
    using assms(3) minDouble_pos by (simp add: divide_strict_right_mono)
  then have "k < l" using k l by simp
  then have "(1::rat) \<le> of_int (l - k)" by simp
  also have "\<dots> = (y - x) / minDouble" using k l by (simp add: diff_divide_distrib)
  finally show ?thesis using minDouble_pos by (simp add: le_divide_eq)
qed

lemma double_toDouble: "double (toDouble q)"
  by (simp add: toDouble_def double_def grid_zero grid_nearest grid_minus)

lemma double_js_add: "double (js_add x y)"
  by (cases x; cases y) (simp_all add: double_toDouble, simp_all add: double_def)

lemma double_js_sub: "double (js_sub x y)"
  by (simp add: js_sub_def double_js_add)

lemma toDouble_pos:
  assumes "minDouble \<le> q"
  shows "js_lt (Fin 0) (toDouble q)"
proof -
  have "0 < q" using assms minDouble_pos by linarith
  with nearest_pos [OF assms] show ?thesis by (simp add: toDouble_def)
qed

lemma toDouble_nonpos: "q \<le> 0 \<Longrightarrow> \<not> js_lt (Fin 0) (toDouble q)"
  using nearest_nonneg [of "- q"] by (simp add: toDouble_def)

lemma compare_positive_iff:
  assumes "double x" and "double y" and "x \<noteq> NaN" and "y \<noteq> NaN"
  shows "js_lt (Fin 0) (js_sub y x) \<longleftrightarrow> js_lt x y"
proof (cases x)
  case x: (Fin a)
  show ?thesis
  proof (cases y)
    case y: (Fin b)
    show ?thesis
    proof (cases "a < b")
      case True
      with assms(1,2) x y have "minDouble \<le> b - a"
        by (simp add: double_def grid_diff)
      then have "js_lt (Fin 0) (toDouble (b - a))" by (rule toDouble_pos)
      with True x y show ?thesis by (simp add: js_sub_def)
    next
      case False
      then have "b - a \<le> 0" by simp
      then have "\<not> js_lt (Fin 0) (toDouble (b - a))" by (rule toDouble_nonpos)
      with False x y show ?thesis by (simp add: js_sub_def)
    qed
  next
    case PInf
    with x show ?thesis by (simp add: js_sub_def)
  next
    case NInf
    with x show ?thesis by (simp add: js_sub_def)
  next
    case NaN
    with assms show ?thesis by simp
  qed
next
  case PInf
  with assms show ?thesis by (cases y) (simp_all add: js_sub_def)
next
  case NInf
  with assms show ?thesis by (cases y) (simp_all add: js_sub_def)
next
  case NaN
  with assms show ?thesis by simp
qed

section \<open>One event: sums and thresholds\<close>

lemma legs_Inr:
  "legs ms = Inr ls \<Longrightarrow>
     map legQuestion ls = map question ms
     \<and> map (\<lambda>l. Some (yesPrice l)) ls = map (\<lambda>m. map_option parseFloat (outcomePrices m)) ms"
  by (induction ms arbitrary: ls) (auto split: option.splits sum.splits)

lemma legs_total: "(\<forall>m \<in> set ms. outcomePrices m \<noteq> None) \<Longrightarrow> \<exists>ls. legs ms = Inr ls"
  by (induction ms) (auto split: option.splits sum.splits)

lemma legs_not_Inl_iff: "legs ms = Inl e \<Longrightarrow> \<exists>m \<in> set ms. outcomePrices m = None"
  by (induction ms) (auto split: option.splits sum.splits)

lemma sumYes_Inr_parsed: "sumYes acc ms = Inr t \<Longrightarrow> \<forall>m \<in> set ms. outcomePrices m \<noteq> None"
  by (induction ms arbitrary: acc) (auto split: option.splits)

lemma sumYes_total: "(\<forall>m \<in> set ms. outcomePrices m \<noteq> None) \<Longrightarrow> \<exists>t. sumYes acc ms = Inr t"
  by (induction ms arbitrary: acc) (auto split: option.splits)


lemma checkEvent_short: "length (snd g) < 2 \<Longrightarrow> checkEvent g = Inr []"
  by (simp add: checkEvent_def)

lemma checkEvent_cases:
  assumes "2 \<le> length (snd g)" and "sumYes (Fin 0) (snd g) = Inr tp"
  shows "\<exists>ls. legs (snd g) = Inr ls \<and>
     checkEvent g = Inr
       ((if js_lt tp (Fin 98)
         then [\<lparr>otype = Underbook, eventName = fst g, markets = ls, totalProb = toFixed2 tp,
                 edge = toFixed2 (js_sub (Fin 100) tp), oppVolume24hr = sumVolume (snd g)\<rparr>]
         else [])
        @ (if js_lt (Fin 102) tp
           then [\<lparr>otype = Overbook, eventName = fst g, markets = ls, totalProb = toFixed2 tp,
                   edge = toFixed2 (js_sub tp (Fin 100)), oppVolume24hr = sumVolume (snd g)\<rparr>]
           else []))"
proof -
  from assms(2) have "\<forall>m \<in> set (snd g). outcomePrices m \<noteq> None"
    by (rule sumYes_Inr_parsed)
  then obtain ls where ls: "legs (snd g) = Inr ls"
    using legs_total by blast
  show ?thesis
    using assms ls by (simp add: checkEvent_def underbook_def overbook_def)
qed

lemma js_lt_98_not_102: "js_lt tp (Fin 98) \<Longrightarrow> \<not> js_lt (Fin 102) tp"
  by (cases tp) simp_all

lemma js_lt_not_NaN: "js_lt x y \<Longrightarrow> x \<noteq> NaN \<and> y \<noteq> NaN"
  by (cases x; cases y) simp_all

lemma checkEvent_member:
  assumes "checkEvent g = Inr xs" and "x \<in> set xs"
  shows "\<exists>tp ls. 2 \<le> length (snd g) \<and> sumYes (Fin 0) (snd g) = Inr tp \<and> legs (snd g) = Inr ls
     \<and> eventName x = fst g \<and> markets x = ls \<and> totalProb x = toFixed2 tp
     \<and> ((otype x = Underbook \<and> js_lt tp (Fin 98) \<and> edge x = toFixed2 (js_sub (Fin 100) tp))
        \<or> (otype x = Overbook \<and> js_lt (Fin 102) tp \<and> edge x = toFixed2 (js_sub tp (Fin 100))))"
proof (cases "length (snd g) < 2")
  case True
  with assms show ?thesis by (simp add: checkEvent_short)
next
  case False
  then have len: "2 \<le> length (snd g)" by simp
  from assms(1) False obtain tp where tp: "sumYes (Fin 0) (snd g) = Inr tp"
    by (auto simp: checkEvent_def split: sum.splits)
  from checkEvent_cases [OF len tp] obtain ls where ls: "legs (snd g) = Inr ls"
    and ev: "checkEvent g = Inr
       ((if js_lt tp (Fin 98)
         then [\<lparr>otype = Underbook, eventName = fst g, markets = ls, totalProb = toFixed2 tp,
                 edge = toFixed2 (js_sub (Fin 100) tp), oppVolume24hr = sumVolume (snd g)\<rparr>]
         else [])
        @ (if js_lt (Fin 102) tp
           then [\<lparr>otype = Overbook, eventName = fst g, markets = ls, totalProb = toFixed2 tp,
                   edge = toFixed2 (js_sub tp (Fin 100)), oppVolume24hr = sumVolume (snd g)\<rparr>]
           else []))"
    by blast
  from ev assms show ?thesis
    using len tp ls by (auto split: if_splits)
qed

lemma checkEvents_Inr:
  "checkEvents gs = Inr xs \<Longrightarrow>
     (\<forall>g \<in> set gs. \<exists>ys. checkEvent g = Inr ys)
     \<and> set xs = (\<Union>g \<in> set gs. case checkEvent g of Inl e \<Rightarrow> {} | Inr ys \<Rightarrow> set ys)"
  by (induction gs arbitrary: xs) (auto split: sum.splits)

lemma checkEvents_total:
  "(\<forall>g \<in> set gs. \<exists>ys. checkEvent g = Inr ys) \<Longrightarrow> \<exists>xs. checkEvents gs = Inr xs"
  by (induction gs) (auto split: sum.splits)

lemma checkEvents_Inl:
  "checkEvents gs = Inl e \<Longrightarrow> \<exists>g \<in> set gs. checkEvent g = Inl e"
  by (induction gs) (auto split: sum.splits)

lemma sumYes_Inl:
  "sumYes acc ms = Inl e \<Longrightarrow> e = InvalidPrices \<and> (\<exists>m \<in> set ms. outcomePrices m = None)"
  by (induction ms arbitrary: acc) (auto split: option.splits)

lemma checkEvent_Inl:
  assumes "checkEvent g = Inl e"
  shows "e = InvalidPrices \<and> (\<exists>m \<in> set (snd g). outcomePrices m = None)"
proof -
  from assms have len: "2 \<le> length (snd g)"
    by (auto simp: checkEvent_def split: if_splits)
  show ?thesis
  proof (cases "sumYes (Fin 0) (snd g)")
    case (Inl e')
    with assms len have "e' = e" by (simp add: checkEvent_def)
    with Inl sumYes_Inl show ?thesis by blast
  next
    case (Inr tp)
    from checkEvent_cases [OF len Inr] assms show ?thesis by auto
  qed
qed

section \<open>Pairs\<close>

lemma checkPair_member:
  assumes "checkPair m1 m2 = Inr xs" and "x \<in> set xs"
  shows "\<exists>yes1 yes2. areInverse (question m1) (question m2)
     \<and> map_option parseFloat (outcomePrices m1) = Some yes1
     \<and> map_option parseFloat (outcomePrices m2) = Some yes2
     \<and> js_lt (js_scale (js_add yes1 yes2) 100) (Fin 98)
     \<and> otype x = Contradiction
     \<and> markets x = [\<lparr>legQuestion = question m1, yesPrice = yes1, legSlug = slug m1\<rparr>,
                     \<lparr>legQuestion = question m2, yesPrice = yes2, legSlug = slug m2\<rparr>]
     \<and> totalProb x = toFixed2 (js_scale (js_add yes1 yes2) 100)
     \<and> edge x = toFixed2 (js_sub (Fin 100) (js_scale (js_add yes1 yes2) 100))"
  using assms by (auto simp: checkPair_def Let_def split: if_splits option.splits)

lemma checkPair_Inl:
  "checkPair m1 m2 = Inl e \<Longrightarrow> e = InvalidPrices \<and> (outcomePrices m1 = None \<or> outcomePrices m2 = None)"
  by (auto simp: checkPair_def Let_def split: if_splits option.splits)

lemma pairsWith_Inr:
  "pairsWith m1 ms = Inr xs \<Longrightarrow>
     set xs = (\<Union>m2 \<in> set ms. case checkPair m1 m2 of Inl e \<Rightarrow> {} | Inr ys \<Rightarrow> set ys)"
  by (induction ms arbitrary: xs) (auto split: sum.splits)

lemma pairsWith_Inl:
  "pairsWith m1 ms = Inl e \<Longrightarrow> \<exists>m2 \<in> set ms. checkPair m1 m2 = Inl e"
  by (induction ms) (auto split: sum.splits)

lemma findContradictions_member:
  "findContradictions ms = Inr xs \<Longrightarrow> x \<in> set xs \<Longrightarrow>
     \<exists>m1 \<in> set ms. \<exists>m2 \<in> set ms. \<exists>ys. checkPair m1 m2 = Inr ys \<and> x \<in> set ys"
proof (induction ms arbitrary: xs)
  case Nil
  then show ?case by simp
next
  case (Cons m ms)
  from Cons.prems(1) obtain a b where a: "pairsWith m ms = Inr a"
    and b: "findContradictions ms = Inr b" and xs: "xs = a @ b"
    by (auto split: sum.splits)
  from Cons.prems(2) xs consider "x \<in> set a" | "x \<in> set b" by auto
  then show ?case
  proof cases
    case 1
    with pairsWith_Inr [OF a] obtain m2 where "m2 \<in> set ms"
      and "x \<in> (case checkPair m m2 of Inl e \<Rightarrow> {} | Inr ys \<Rightarrow> set ys)" by auto
    then show ?thesis by (auto split: sum.splits)
  next
    case 2
    with Cons.IH [OF b] show ?thesis by auto
  qed
qed

lemma findContradictions_Inl:
  "findContradictions ms = Inl e \<Longrightarrow>
     \<exists>m1 \<in> set ms. \<exists>m2 \<in> set ms. checkPair m1 m2 = Inl e"
proof (induction ms)
  case Nil
  then show ?case by simp
next
  case (Cons m ms)
  show ?case
  proof (cases "pairsWith m ms")
    case (Inl e')
    with Cons.prems have "e' = e" by simp
    with Inl pairsWith_Inl show ?thesis by fastforce
  next
    case (Inr a)
    with Cons.prems have "findContradictions ms = Inl e" by (auto split: sum.splits)
    with Cons.IH show ?thesis by auto
  qed
qed

section \<open>Groups, entries and the returned list\<close>

lemma pushMarket_markets:
  "pushMarket gs k m = Inr gs' \<Longrightarrow>
     (\<Union>g \<in> set gs'. set (snd g)) = insert m (\<Union>g \<in> set gs. set (snd g))"
  by (auto simp: pushMarket_def split: if_splits) force+

lemma pushMarket_Inl:
  "pushMarket gs k m = Inl e \<Longrightarrow> e = NotAFunction \<and> k \<in> set inheritedKeys"
  by (auto simp: pushMarket_def split: if_splits)

lemma pushMarket_total:
  "k \<notin> set inheritedKeys \<Longrightarrow> \<exists>gs'. pushMarket gs k m = Inr gs'"
  by (simp add: pushMarket_def)

lemma groupInto_markets:
  "groupInto gs ms = Inr gs' \<Longrightarrow>
     (\<Union>g \<in> set gs'. set (snd g)) = set ms \<union> (\<Union>g \<in> set gs. set (snd g))"
proof (induction ms arbitrary: gs)
  case Nil
  then show ?case by simp
next
  case (Cons m ms)
  from Cons.prems obtain g1 where p: "pushMarket gs (extractEventKey (question m)) m = Inr g1"
    and r: "groupInto g1 ms = Inr gs'"
    by (auto split: sum.splits)
  from Cons.IH [OF r] pushMarket_markets [OF p] show ?case by auto
qed

lemma groupInto_Inl:
  "groupInto gs ms = Inl e \<Longrightarrow>
     e = NotAFunction \<and> (\<exists>m \<in> set ms. extractEventKey (question m) \<in> set inheritedKeys)"
proof (induction ms arbitrary: gs)
  case Nil
  then show ?case by simp
next
  case (Cons m ms)
  show ?case
  proof (cases "pushMarket gs (extractEventKey (question m)) m")
    case (Inl e')
    with Cons.prems have "e' = e" by simp
    with Inl pushMarket_Inl show ?thesis by fastforce
  next
    case (Inr g1)
    with Cons.prems have "groupInto g1 ms = Inl e" by simp
    with Cons.IH show ?thesis by auto
  qed
qed

lemma groupByEvent_markets:
  "groupByEvent ms = Inr gs \<Longrightarrow> g \<in> set gs \<Longrightarrow> set (snd g) \<subseteq> set ms"
  using groupInto_markets [of "[]" ms gs] by (auto simp: groupByEvent_def)

lemma set_objectEntries: "set (objectEntries g) = set g"
  by (auto simp: objectEntries_def)

lemma set_insertByEdge: "set (insertByEdge a bs) = insert a (set bs)"
  by (induction bs) auto

lemma set_sortByEdge: "set (sortByEdge xs) = set xs"
  by (induction xs) (simp_all add: sortByEdge_def set_insertByEdge)

lemma detectArbitrage_Inr:
  assumes "detectArbitrage ms = Inr opps"
  shows "\<exists>gs es cs. groupByEvent (validMarkets ms) = Inr gs
     \<and> checkEvents (objectEntries gs) = Inr es
     \<and> findContradictions (validMarkets ms) = Inr cs
     \<and> opps = sortByEdge (es @ cs)"
  using assms by (auto simp: detectArbitrage_def split: sum.splits)

lemma detectArbitrage_member:
  assumes "detectArbitrage ms = Inr opps" and "x \<in> set opps"
  shows "(\<exists>g ys. set (snd g) \<subseteq> set (validMarkets ms) \<and> checkEvent g = Inr ys \<and> x \<in> set ys)
       \<or> (\<exists>m1 \<in> set (validMarkets ms). \<exists>m2 \<in> set (validMarkets ms). \<exists>ys.
             checkPair m1 m2 = Inr ys \<and> x \<in> set ys)"
proof -
  from detectArbitrage_Inr [OF assms(1)] obtain gs es cs
    where gs: "groupByEvent (validMarkets ms) = Inr gs"
      and es: "checkEvents (objectEntries gs) = Inr es"
      and cs: "findContradictions (validMarkets ms) = Inr cs"
      and opps: "opps = sortByEdge (es @ cs)" by blast
  from assms(2) opps consider "x \<in> set es" | "x \<in> set cs"
    by (auto simp: set_sortByEdge)
  then show ?thesis
  proof cases
    case 1
    with checkEvents_Inr [OF es] obtain g ys where "g \<in> set gs"
      and "checkEvent g = Inr ys" and "x \<in> set ys"
      by (auto simp: set_objectEntries split: sum.splits)
    with groupByEvent_markets [OF gs] show ?thesis by blast
  next
    case 2
    with findContradictions_member [OF cs] show ?thesis by blast
  qed
qed

section \<open>The scan of the example list\<close>

lemmas example_keys =
  key_X_50_100 [unfolded js_def, simplified] key_X_100_150 [unfolded js_def, simplified]
  key_X_less_50 [unfolded js_def, simplified] key_rain [unfolded js_def, simplified]
  key_not_rain [unfolded js_def, simplified]

lemmas example_defs =
  exampleMarkets_def bucketA_def bucketB_def bucketC_def rainYes_def rainNo_def halftime_def

lemma example_valid:
  "validMarkets exampleMarkets = [bucketA, bucketB, rainYes, bucketC, rainNo]"
  by (simp add: validMarkets_def example_defs text_eval)

lemma example_groups:
  "groupByEvent [bucketA, bucketB, rainYes, bucketC, rainNo] =
     Inr [(js ''x spend'', [bucketA, bucketB, bucketC]),
          (js ''it rain tomorrow'', [rainYes]),
          (js ''it not rain tomorrow'', [rainNo])]"
  by (simp add: groupByEvent_def pushMarket_def inheritedKeys_def example_defs js_def example_keys)

lemma example_entries:
  "objectEntries [(js ''x spend'', [bucketA, bucketB, bucketC]),
                  (js ''it rain tomorrow'', [rainYes]),
                  (js ''it not rain tomorrow'', [rainNo])] =
     [(js ''x spend'', [bucketA, bucketB, bucketC]),
      (js ''it rain tomorrow'', [rainYes]),
      (js ''it not rain tomorrow'', [rainNo])]"
  by (simp add: objectEntries_def arrayIndex_def isDigit_def js_def)

lemma example_events:
  "checkEvents [(js ''x spend'', [bucketA, bucketB, bucketC]),
                (js ''it rain tomorrow'', [rainYes]),
                (js ''it not rain tomorrow'', [rainNo])] = Inr [exampleUnderbook]"
  by (simp add: checkEvent_def underbook_def overbook_def sumVolume_def number_eval
      example_defs exampleUnderbook_def)

lemma example_contradictions:
  "findContradictions [bucketA, bucketB, rainYes, bucketC, rainNo] = Inr [exampleContradiction]"
  by (simp add: checkPair_def vs_def areInverse_def text_eval number_eval
      example_defs exampleContradiction_def)

lemma example_sort:
  "sortByEdge ([exampleUnderbook] @ [exampleContradiction])
     = [exampleContradiction, exampleUnderbook]"
  by (simp add: sortByEdge_def compareEdge_def number_eval
      exampleContradiction_def exampleUnderbook_def)

lemma example_scan:
  "detectArbitrage exampleMarkets = Inr [exampleContradiction, exampleUnderbook]"
proof -
  have "detectArbitrage exampleMarkets
      = Inr (sortByEdge ([exampleUnderbook] @ [exampleContradiction]))"
    by (simp only: detectArbitrage_def example_valid example_groups example_entries
        example_events example_contradictions sum.case)
  then show ?thesis by (simp only: example_sort)
qed

lemmas scan_eval =
  detectArbitrage_def validMarkets_def groupByEvent_def pushMarket_def inheritedKeys_def
  objectEntries_def arrayIndex_def isDigit_def checkEvent_def underbook_def overbook_def
  sumVolume_def checkPair_def vs_def areInverse_def sortByEdge_def compareEdge_def
  text_eval number_eval example_defs example_keys


section \<open>Properties of every returned opportunity\<close>






section \<open>The order of the returned list\<close>

lemma toDouble_not_NaN: "toDouble q \<noteq> NaN"
  by (simp add: toDouble_def)

lemma js_sub_self: "\<not> js_lt (Fin 0) (js_sub x x)"
  by (cases x) (simp_all add: js_sub_def toDouble_def)

lemma under_not_NaN: "js_lt tp (Fin 98) \<Longrightarrow> js_sub (Fin 100) tp \<noteq> NaN"
  by (cases tp) (simp_all add: js_sub_def toDouble_not_NaN)

lemma over_not_NaN: "js_lt (Fin 102) tp \<Longrightarrow> js_sub tp (Fin 100) \<noteq> NaN"
  by (cases tp) (simp_all add: js_sub_def toDouble_not_NaN)

lemma numberOf_toFixed2:
  assumes "double x" and "x \<noteq> NaN"
  shows "double (numberOf (toFixed2 x)) \<and> numberOf (toFixed2 x) \<noteq> NaN"
  using assms by (cases x) (simp_all add: double_toDouble toDouble_not_NaN)

lemma under_edge:
  "js_lt tp (Fin 98) \<Longrightarrow>
     double (numberOf (toFixed2 (js_sub (Fin 100) tp)))
     \<and> numberOf (toFixed2 (js_sub (Fin 100) tp)) \<noteq> NaN"
  by (intro numberOf_toFixed2 double_js_sub under_not_NaN)

lemma over_edge:
  "js_lt (Fin 102) tp \<Longrightarrow>
     double (numberOf (toFixed2 (js_sub tp (Fin 100))))
     \<and> numberOf (toFixed2 (js_sub tp (Fin 100))) \<noteq> NaN"
  by (intro numberOf_toFixed2 double_js_sub over_not_NaN)

lemma member_edge_number:
  assumes "detectArbitrage ms = Inr opps" and "x \<in> set opps"
  shows "double (numberOf (edge x)) \<and> numberOf (edge x) \<noteq> NaN"
  using detectArbitrage_member [OF assms]
proof (elim disjE exE conjE bexE)
  fix g ys
  assume "checkEvent g = Inr ys" and "x \<in> set ys"
  from checkEvent_member [OF this] obtain tp
    where "js_lt tp (Fin 98) \<and> edge x = toFixed2 (js_sub (Fin 100) tp)
           \<or> js_lt (Fin 102) tp \<and> edge x = toFixed2 (js_sub tp (Fin 100))"
    by blast
  then show ?thesis
  proof
    assume "js_lt tp (Fin 98) \<and> edge x = toFixed2 (js_sub (Fin 100) tp)"
    with under_edge [of tp] show ?thesis by simp
  next
    assume "js_lt (Fin 102) tp \<and> edge x = toFixed2 (js_sub tp (Fin 100))"
    with over_edge [of tp] show ?thesis by simp
  qed
next
  fix m1 m2 ys
  assume "checkPair m1 m2 = Inr ys" and "x \<in> set ys"
  from checkPair_member [OF this] obtain tp
    where "js_lt tp (Fin 98)" and "edge x = toFixed2 (js_sub (Fin 100) tp)"
    by blast
  with under_edge [of tp] show ?thesis by simp
qed

lemma js_ge_trans: "js_ge x y \<Longrightarrow> js_ge y z \<Longrightarrow> js_ge x z"
  by (cases x; cases y; cases z) (simp_all add: js_ge_def)

lemma js_lt_imp_ge: "js_lt x y \<Longrightarrow> js_ge y x"
  by (cases x; cases y) (simp_all add: js_ge_def)

lemma sorted_insertByEdge:
  assumes "double (numberOf (edge a)) \<and> numberOf (edge a) \<noteq> NaN"
    and "\<forall>b \<in> set bs. double (numberOf (edge b)) \<and> numberOf (edge b) \<noteq> NaN"
    and "sorted_wrt (\<lambda>u v. js_ge (numberOf (edge u)) (numberOf (edge v))) bs"
  shows "sorted_wrt (\<lambda>u v. js_ge (numberOf (edge u)) (numberOf (edge v))) (insertByEdge a bs)"
  using assms
proof (induction bs)
  case Nil
  then show ?case by simp
next
  case (Cons b bs)
  from Cons.prems have cmp: "js_lt (Fin 0) (compareEdge a b)
      \<longleftrightarrow> js_lt (numberOf (edge a)) (numberOf (edge b))"
    by (simp add: compareEdge_def compare_positive_iff)
  show ?case
  proof (cases "js_lt (numberOf (edge a)) (numberOf (edge b))")
    case True
    then have "js_ge (numberOf (edge b)) (numberOf (edge a))" by (rule js_lt_imp_ge)
    with True cmp show ?thesis
      using Cons by (auto simp: set_insertByEdge)
  next
    case False
    have ab: "js_ge (numberOf (edge a)) (numberOf (edge b))"
      using False Cons.prems by (simp add: js_ge_def)
    have "\<forall>c \<in> set bs. js_ge (numberOf (edge a)) (numberOf (edge c))"
      using ab Cons.prems(3) by (auto intro: js_ge_trans)
    with False cmp ab Cons.prems(3) show ?thesis by simp
  qed
qed

lemma sorted_sortByEdge:
  "\<forall>x \<in> set xs. double (numberOf (edge x)) \<and> numberOf (edge x) \<noteq> NaN \<Longrightarrow>
     sorted_wrt (\<lambda>u v. js_ge (numberOf (edge u)) (numberOf (edge v))) (sortByEdge xs)"
proof (induction xs)
  case Nil
  then show ?case by (simp add: sortByEdge_def)
next
  case (Cons a xs)
  then have "sorted_wrt (\<lambda>u v. js_ge (numberOf (edge u)) (numberOf (edge v))) (sortByEdge xs)"
    by simp
  moreover have "\<forall>b \<in> set (sortByEdge xs). double (numberOf (edge b)) \<and> numberOf (edge b) \<noteq> NaN"
    using Cons.prems by (simp add: set_sortByEdge)
  moreover have "double (numberOf (edge a)) \<and> numberOf (edge a) \<noteq> NaN"
    using Cons.prems by simp
  ultimately have "sorted_wrt (\<lambda>u v. js_ge (numberOf (edge u)) (numberOf (edge v)))
      (insertByEdge a (sortByEdge xs))"
    by (intro sorted_insertByEdge)
  then show ?case by (simp add: sortByEdge_def)
qed

lemma mset_insertByEdge: "mset (insertByEdge a bs) = add_mset a (mset bs)"
  by (induction bs) simp_all

lemma mset_sortByEdge: "mset (sortByEdge xs) = mset xs"
  by (induction xs) (simp_all add: sortByEdge_def mset_insertByEdge)

lemma filter_insertByEdge:
  "filter (\<lambda>x. numberOf (edge x) = e) (insertByEdge a bs)
     = (if numberOf (edge a) = e then a # filter (\<lambda>x. numberOf (edge x) = e) bs
        else filter (\<lambda>x. numberOf (edge x) = e) bs)"
proof (induction bs)
  case Nil
  show ?case by simp
next
  case (Cons b bs)
  have "\<not> js_lt (Fin 0) (compareEdge a b)" if "numberOf (edge a) = numberOf (edge b)"
    using that js_sub_self [of "numberOf (edge b)"] by (simp add: compareEdge_def)
  with Cons show ?case by auto
qed

lemma filter_sortByEdge:
  "filter (\<lambda>x. numberOf (edge x) = e) (sortByEdge xs) = filter (\<lambda>x. numberOf (edge x) = e) xs"
  by (induction xs) (simp_all add: sortByEdge_def filter_insertByEdge)

text \<open>
  C8: the list that \<open>detectArbitrage\<close> returns holds the entries of the two strategies,
  the underbooks and overbooks of the groups and the contradictions of the pairs, each as
  often as it was emitted; entries of equal edge keep the order in which they were
  emitted; and the list is in descending order of edge, read as a number: of any two
  consecutive entries the earlier has an edge greater than or equal to the later one's
  (and so has any earlier entry against any later one).
\<close>

theorem detectArbitrage_sorted_by_edge:
  assumes "detectArbitrage ms = Inr opps"
  shows "\<exists>gs es cs. groupByEvent (validMarkets ms) = Inr gs
       \<and> checkEvents (objectEntries gs) = Inr es
       \<and> findContradictions (validMarkets ms) = Inr cs
       \<and> mset opps = mset (es @ cs)
       \<and> (\<forall>e. filter (\<lambda>x. numberOf (edge x) = e) opps
               = filter (\<lambda>x. numberOf (edge x) = e) (es @ cs))
       \<and> successively (\<lambda>a b. js_ge (numberOf (edge a)) (numberOf (edge b))) opps
       \<and> sorted_wrt (\<lambda>a b. js_ge (numberOf (edge a)) (numberOf (edge b))) opps"
proof -
  from detectArbitrage_Inr [OF assms] obtain gs es cs
    where gs: "groupByEvent (validMarkets ms) = Inr gs"
      and es: "checkEvents (objectEntries gs) = Inr es"
      and cs: "findContradictions (validMarkets ms) = Inr cs"
      and opps: "opps = sortByEdge (es @ cs)"
    by blast
  have "\<forall>x \<in> set (es @ cs). double (numberOf (edge x)) \<and> numberOf (edge x) \<noteq> NaN"
    using member_edge_number [OF assms] opps by (simp add: set_sortByEdge)
  then have s: "sorted_wrt (\<lambda>a b. js_ge (numberOf (edge a)) (numberOf (edge b))) opps"
    unfolding opps by (rule sorted_sortByEdge)
  then have "successively (\<lambda>a b. js_ge (numberOf (edge a)) (numberOf (edge b))) opps"
    by (rule successively_if_sorted_wrt)
  moreover have "mset opps = mset (es @ cs)"
    unfolding opps by (rule mset_sortByEdge)
  moreover have "\<forall>e. filter (\<lambda>x. numberOf (edge x) = e) opps
               = filter (\<lambda>x. numberOf (edge x) = e) (es @ cs)"
    unfolding opps by (simp add: filter_sortByEdge)
  ultimately show ?thesis using gs es cs s by blast
qed

theorem detectArbitrage_sorted_by_edge_witness:
  "detectArbitrage exampleMarkets = Inr [exampleContradiction, exampleUnderbook]
   \<and> checkEvents (objectEntries [(js ''x spend'', [bucketA, bucketB, bucketC]),
                                   (js ''it rain tomorrow'', [rainYes]),
                                   (js ''it not rain tomorrow'', [rainNo])]) = Inr [exampleUnderbook]
   \<and> findContradictions (validMarkets exampleMarkets) = Inr [exampleContradiction]
   \<and> mset [exampleContradiction, exampleUnderbook] = mset ([exampleUnderbook] @ [exampleContradiction])
   \<and> js_ge (numberOf (edge exampleContradiction)) (numberOf (edge exampleUnderbook))
   \<and> \<not> js_ge (numberOf (edge exampleUnderbook)) (numberOf (edge exampleContradiction))"
proof -
  from detectArbitrage_sorted_by_edge [OF example_scan]
  have "mset [exampleContradiction, exampleUnderbook] = mset ([exampleUnderbook] @ [exampleContradiction])
      \<and> js_ge (numberOf (edge exampleContradiction)) (numberOf (edge exampleUnderbook))"
    by (auto simp: example_valid example_groups example_entries example_events
        example_contradictions)
  moreover have "\<not> js_ge (numberOf (edge exampleUnderbook)) (numberOf (edge exampleContradiction))"
    by (simp add: js_ge_def exampleUnderbook_def exampleContradiction_def number_eval)
  ultimately show ?thesis
    using example_scan
    by (simp only: example_valid example_entries example_events example_contradictions simp_thms)
qed


section \<open>The thresholds of a group\<close>

lemma pushMarket_keys:
  assumes "pushMarket gs k m = Inr gs'" and "distinct (map fst gs)"
  shows "distinct (map fst gs')"
proof (cases "k \<in> fst ` set gs")
  case True
  have "map fst (map (\<lambda>(k', ms). if k' = k then (k', ms @ [m]) else (k', ms)) gs) = map fst gs"
    by (induction gs) auto
  with True assms show ?thesis by (auto simp: pushMarket_def)
next
  case False
  with assms show ?thesis by (auto simp: pushMarket_def split: if_splits)
qed

lemma groupInto_keys:
  "groupInto gs ms = Inr gs' \<Longrightarrow> distinct (map fst gs) \<Longrightarrow> distinct (map fst gs')"
proof (induction ms arbitrary: gs)
  case Nil
  then show ?case by simp
next
  case (Cons m ms)
  from Cons.prems(1) obtain g1 where p: "pushMarket gs (extractEventKey (question m)) m = Inr g1"
    and r: "groupInto g1 ms = Inr gs'"
    by (auto split: sum.splits)
  from pushMarket_keys [OF p Cons.prems(2)] Cons.IH [OF r] show ?case by simp
qed

lemma mset_objectEntries: "mset (objectEntries g) = mset g"
  by (simp add: objectEntries_def)

lemma entries_keys:
  assumes "groupByEvent ms = Inr gs"
  shows "distinct (map fst (objectEntries gs))"
proof -
  from assms have "distinct (map fst gs)"
    using groupInto_keys [of "[]" ms gs] by (simp add: groupByEvent_def)
  moreover have "mset (map fst (objectEntries gs)) = mset (map fst gs)"
    by (simp add: mset_objectEntries)
  ultimately show ?thesis by (metis mset_eq_imp_distinct_iff)
qed

lemma checkEvent_names:
  assumes "checkEvent g = Inr ys" and "y \<in> set ys"
  shows "eventName y = fst g \<and> otype y \<noteq> Contradiction"
  using checkEvent_member [OF assms] by auto

lemma checkEvents_other:
  "checkEvents E = Inr es \<Longrightarrow> name \<notin> fst ` set E \<Longrightarrow>
     filter (\<lambda>x. otype x \<noteq> Contradiction \<and> eventName x = name) es = []"
proof (induction E arbitrary: es)
  case Nil
  then show ?case by simp
next
  case (Cons e E)
  from Cons.prems(1) obtain a b where a: "checkEvent e = Inr a" and b: "checkEvents E = Inr b"
    and es: "es = a @ b"
    by (auto split: sum.splits)
  have "\<forall>y \<in> set a. eventName y \<noteq> name"
    using checkEvent_names [OF a] Cons.prems(2) by auto
  then have "filter (\<lambda>x. otype x \<noteq> Contradiction \<and> eventName x = name) a = []"
    by (simp add: filter_empty_conv)
  with Cons.IH [OF b] Cons.prems(2) es show ?case by simp
qed

lemma checkEvents_filter:
  "checkEvents E = Inr es \<Longrightarrow> distinct (map fst E) \<Longrightarrow> (name, g) \<in> set E \<Longrightarrow>
     checkEvent (name, g) = Inr (filter (\<lambda>x. otype x \<noteq> Contradiction \<and> eventName x = name) es)"
proof (induction E arbitrary: es)
  case Nil
  then show ?case by simp
next
  case (Cons e E)
  from Cons.prems(1) obtain a b where a: "checkEvent e = Inr a" and b: "checkEvents E = Inr b"
    and es: "es = a @ b"
    by (auto split: sum.splits)
  show ?case
  proof (cases "e = (name, g)")
    case True
    with Cons.prems(2) have "name \<notin> fst ` set E" by auto
    from checkEvents_other [OF b this]
    have 1: "filter (\<lambda>x. otype x \<noteq> Contradiction \<and> eventName x = name) b = []" .
    have "\<forall>y \<in> set a. otype y \<noteq> Contradiction \<and> eventName y = name"
      using checkEvent_names [OF a] True by auto
    then have "filter (\<lambda>x. otype x \<noteq> Contradiction \<and> eventName x = name) a = a"
      by (simp add: filter_id_conv)
    with 1 a True es show ?thesis by simp
  next
    case False
    with Cons.prems(3) have in_E: "(name, g) \<in> set E" by simp
    then have "name \<in> fst ` set E" by force
    with Cons.prems(2) have "fst e \<noteq> name" by auto
    then have "\<forall>y \<in> set a. eventName y \<noteq> name"
      using checkEvent_names [OF a] by auto
    then have "filter (\<lambda>x. otype x \<noteq> Contradiction \<and> eventName x = name) a = []"
      by (simp add: filter_empty_conv)
    with Cons.IH [OF b _ in_E] Cons.prems(2) es show ?thesis by simp
  qed
qed

lemma contradictions_otype:
  assumes "findContradictions ms = Inr cs" and "x \<in> set cs"
  shows "otype x = Contradiction"
  using findContradictions_member [OF assms] checkPair_member by blast

lemma scan_filter_group:
  assumes "detectArbitrage ms = Inr opps" and "groupByEvent (validMarkets ms) = Inr gs"
    and "(name, g) \<in> set gs"
  shows "mset (filter (\<lambda>x. otype x \<noteq> Contradiction \<and> eventName x = name) opps)
       = mset (projr (checkEvent (name, g)))
     \<and> (\<exists>ys. checkEvent (name, g) = Inr ys)"
proof -
  from detectArbitrage_Inr [OF assms(1)] assms(2) obtain es cs
    where es: "checkEvents (objectEntries gs) = Inr es"
      and cs: "findContradictions (validMarkets ms) = Inr cs"
      and opps: "opps = sortByEdge (es @ cs)"
    by auto
  have "(name, g) \<in> set (objectEntries gs)" using assms(3) by (simp add: set_objectEntries)
  from checkEvents_filter [OF es entries_keys [OF assms(2)] this]
  have ev: "checkEvent (name, g)
      = Inr (filter (\<lambda>x. otype x \<noteq> Contradiction \<and> eventName x = name) es)" .
  have c: "filter (\<lambda>x. otype x \<noteq> Contradiction \<and> eventName x = name) cs = []"
    using contradictions_otype [OF cs] by (simp add: filter_empty_conv)
  have "mset (filter (\<lambda>x. otype x \<noteq> Contradiction \<and> eventName x = name) opps)
      = mset (filter (\<lambda>x. otype x \<noteq> Contradiction \<and> eventName x = name) (es @ cs))"
    unfolding opps by (simp only: mset_filter mset_sortByEdge)
  also have "\<dots> = mset (filter (\<lambda>x. otype x \<noteq> Contradiction \<and> eventName x = name) es)"
    by (simp only: filter_append c append_Nil2)
  finally show ?thesis using ev by simp
qed


lemma mset_eq_short:
  assumes "mset xs = mset ys" and "length ys \<le> 1"
  shows "xs = ys"
proof -
  from assms(1) have l: "length xs = length ys" by (rule mset_eq_length)
  from assms(1) have s: "set xs = set ys" by (rule mset_eq_setD)
  show ?thesis
  proof (cases ys)
    case Nil
    with l show ?thesis by simp
  next
    case (Cons y ys')
    with assms(2) have ys: "ys = [y]" by simp
    with l obtain x where "xs = [x]" by (cases xs) auto
    with s ys show ?thesis by simp
  qed
qed

text \<open>
  C2, as stated, fails twice. Three buckets at 0.29, 0.57 and 0.12 sum to exactly 98 per
  cent; in doubles \<open>0 + 0.29 * 100 + 0.57 * 100 + 0.12 * 100\<close> is \<open>97.99999999999999\<close>, and
  the scan returns an underbook with the total \<open>98.00\<close> and the edge \<open>2.00\<close>. And the edge
  is \<open>(100 - totalProb).toFixed(2)\<close>: two buckets at 0.30 and 0.12341 give the sum
  \<open>42.341\<close> and the edge \<open>57.66\<close>, which is not 100 minus the sum.
\<close>

theorem sum_of_98_is_underbook:
  "exactSum [bucketA\<lparr>outcomePrices := Some (Decimal (29 / 100))\<rparr>,
             bucketB\<lparr>outcomePrices := Some (Decimal (57 / 100))\<rparr>,
             bucketC\<lparr>outcomePrices := Some (Decimal (12 / 100))\<rparr>] = 98
   \<and> detectArbitrage [bucketA\<lparr>outcomePrices := Some (Decimal (29 / 100))\<rparr>,
                        bucketB\<lparr>outcomePrices := Some (Decimal (57 / 100))\<rparr>,
                        bucketC\<lparr>outcomePrices := Some (Decimal (12 / 100))\<rparr>] =
       Inr [\<lparr>otype = Underbook, eventName = js ''x spend'',
             markets = [\<lparr>legQuestion = js ''Will X spend $50B-$100B?'',
                          yesPrice = toDouble (29 / 100), legSlug = js ''a''\<rparr>,
                        \<lparr>legQuestion = js ''Will X spend $100B-$150B?'',
                          yesPrice = toDouble (57 / 100), legSlug = js ''b''\<rparr>,
                        \<lparr>legQuestion = js ''Will X spend less than $50B?'',
                          yesPrice = toDouble (12 / 100), legSlug = js ''c''\<rparr>],
             totalProb = Fixed False 9800, edge = Fixed False 200, oppVolume24hr = Fin 3500\<rparr>]
   \<and> detectArbitrage [bucketA, bucketB\<lparr>outcomePrices := Some (Decimal (12341 / 100000))\<rparr>] =
       Inr [\<lparr>otype = Underbook, eventName = js ''x spend'',
             markets = [\<lparr>legQuestion = js ''Will X spend $50B-$100B?'',
                          yesPrice = toDouble (30 / 100), legSlug = js ''a''\<rparr>,
                        \<lparr>legQuestion = js ''Will X spend $100B-$150B?'',
                          yesPrice = toDouble (12341 / 100000), legSlug = js ''b''\<rparr>],
             totalProb = Fixed False 4234, edge = Fixed False 5766, oppVolume24hr = Fin 3000\<rparr>]
   \<and> sumYes (Fin 0) [bucketA, bucketB\<lparr>outcomePrices := Some (Decimal (12341 / 100000))\<rparr>]
       = Inr (Fin (5958965994452943 / 140737488355328))
   \<and> js_sub (Fin 100) (Fin (5958965994452943 / 140737488355328))
       = Fin (8114782841079857 / 140737488355328)
   \<and> numberOf (Fixed False 5766) \<noteq> Fin (8114782841079857 / 140737488355328)"
  by (simp add: exactSum_def percent_def scan_eval)

text \<open>
  C2, amended: for every group of the scan with at least two members, with \<open>tp\<close> the sum
  that the doubles of the scan compute (the YES prices times 100, added up from 0), the
  returned list holds for that group exactly one underbook when \<open>tp < 98\<close>, with the edge
  \<open>100 - tp\<close> rounded to two decimals, exactly one overbook when \<open>tp > 102\<close>, with the edge
  \<open>tp - 100\<close> rounded to two decimals, and nothing otherwise; for a finite \<open>tp\<close> the two
  tests are \<open>tp < 98\<close> and \<open>102 < tp\<close>, so nothing is returned for a computed sum on the
  closed interval. A computed sum of exactly 98 gives nothing, the double 97.99 an
  underbook with the edge 2.01.
\<close>

theorem group_thresholds:
  assumes "detectArbitrage ms = Inr opps" and "groupByEvent (validMarkets ms) = Inr gs"
    and "(name, g) \<in> set gs" and "2 \<le> length g"
  shows "\<exists>tp ls. sumYes (Fin 0) g = Inr tp \<and> legs g = Inr ls
     \<and> filter (\<lambda>x. otype x \<noteq> Contradiction \<and> eventName x = name) opps =
          (if js_lt tp (Fin 98)
           then [\<lparr>otype = Underbook, eventName = name, markets = ls, totalProb = toFixed2 tp,
                   edge = toFixed2 (js_sub (Fin 100) tp), oppVolume24hr = sumVolume g\<rparr>]
           else if js_lt (Fin 102) tp
           then [\<lparr>otype = Overbook, eventName = name, markets = ls, totalProb = toFixed2 tp,
                   edge = toFixed2 (js_sub tp (Fin 100)), oppVolume24hr = sumVolume g\<rparr>]
           else [])
     \<and> (\<forall>s. tp = Fin s \<longrightarrow>
            (js_lt tp (Fin 98) \<longleftrightarrow> s < 98) \<and> (js_lt (Fin 102) tp \<longleftrightarrow> 102 < s)
            \<and> (98 \<le> s \<and> s \<le> 102 \<longrightarrow>
                 filter (\<lambda>x. otype x \<noteq> Contradiction \<and> eventName x = name) opps = []))
     \<and> (tp = Fin 98 \<longrightarrow>
            filter (\<lambda>x. otype x \<noteq> Contradiction \<and> eventName x = name) opps = [])
     \<and> (tp = toDouble (9799 / 100) \<longrightarrow>
            filter (\<lambda>x. otype x \<noteq> Contradiction \<and> eventName x = name) opps =
              [\<lparr>otype = Underbook, eventName = name, markets = ls,
                totalProb = Fixed False 9799, edge = Fixed False 201,
                oppVolume24hr = sumVolume g\<rparr>])"
proof -
  let ?P = "\<lambda>x. otype x \<noteq> Contradiction \<and> eventName x = name"
  from scan_filter_group [OF assms(1,2,3)] obtain ys
    where ys: "checkEvent (name, g) = Inr ys" and m: "mset (filter ?P opps) = mset ys"
    by auto
  from ys assms(4) obtain tp where tp: "sumYes (Fin 0) g = Inr tp"
    by (auto simp: checkEvent_def split: sum.splits)
  from checkEvent_cases [of "(name, g)" tp] assms(4) tp obtain ls
    where ls: "legs g = Inr ls"
      and ev: "checkEvent (name, g) = Inr
       ((if js_lt tp (Fin 98)
         then [\<lparr>otype = Underbook, eventName = name, markets = ls, totalProb = toFixed2 tp,
                 edge = toFixed2 (js_sub (Fin 100) tp), oppVolume24hr = sumVolume g\<rparr>]
         else [])
        @ (if js_lt (Fin 102) tp
           then [\<lparr>otype = Overbook, eventName = name, markets = ls, totalProb = toFixed2 tp,
                   edge = toFixed2 (js_sub tp (Fin 100)), oppVolume24hr = sumVolume g\<rparr>]
           else []))"
    by auto
  have shape: "ys =
          (if js_lt tp (Fin 98)
           then [\<lparr>otype = Underbook, eventName = name, markets = ls, totalProb = toFixed2 tp,
                   edge = toFixed2 (js_sub (Fin 100) tp), oppVolume24hr = sumVolume g\<rparr>]
           else if js_lt (Fin 102) tp
           then [\<lparr>otype = Overbook, eventName = name, markets = ls, totalProb = toFixed2 tp,
                   edge = toFixed2 (js_sub tp (Fin 100)), oppVolume24hr = sumVolume g\<rparr>]
           else [])"
    using ev ys js_lt_98_not_102 [of tp] by simp
  then have "length ys \<le> 1" by simp
  from mset_eq_short [OF m this] have f: "filter ?P opps = ys" .
  have main: "filter ?P opps =
          (if js_lt tp (Fin 98)
           then [\<lparr>otype = Underbook, eventName = name, markets = ls, totalProb = toFixed2 tp,
                   edge = toFixed2 (js_sub (Fin 100) tp), oppVolume24hr = sumVolume g\<rparr>]
           else if js_lt (Fin 102) tp
           then [\<lparr>otype = Overbook, eventName = name, markets = ls, totalProb = toFixed2 tp,
                   edge = toFixed2 (js_sub tp (Fin 100)), oppVolume24hr = sumVolume g\<rparr>]
           else [])"
    using f shape by simp
  have fin: "\<forall>s. tp = Fin s \<longrightarrow>
            (js_lt tp (Fin 98) \<longleftrightarrow> s < 98) \<and> (js_lt (Fin 102) tp \<longleftrightarrow> 102 < s)
            \<and> (98 \<le> s \<and> s \<le> 102 \<longrightarrow> filter ?P opps = [])"
    using main by auto
  have b98: "tp = Fin 98 \<longrightarrow> filter ?P opps = []"
    using main by simp
  have d: "toDouble (9799 / 100) = Fin (6895433241969295 / 70368744177664)"
    by (simp add: number_eval)
  have b9799: "tp = toDouble (9799 / 100) \<longrightarrow>
            filter ?P opps =
              [\<lparr>otype = Underbook, eventName = name, markets = ls,
                totalProb = Fixed False 9799, edge = Fixed False 201,
                oppVolume24hr = sumVolume g\<rparr>]"
    unfolding d using main by (simp add: number_eval)
  from tp ls main fin b98 b9799 show ?thesis by blast
qed


theorem group_thresholds_witness:
  "detectArbitrage [bucketA\<lparr>outcomePrices := Some (Decimal (50 / 100))\<rparr>,
                    bucketB\<lparr>outcomePrices := Some (Decimal (4799 / 10000))\<rparr>] =
     Inr [\<lparr>otype = Underbook, eventName = js ''x spend'',
           markets = [\<lparr>legQuestion = js ''Will X spend $50B-$100B?'',
                        yesPrice = toDouble (50 / 100), legSlug = js ''a''\<rparr>,
                      \<lparr>legQuestion = js ''Will X spend $100B-$150B?'',
                        yesPrice = toDouble (4799 / 10000), legSlug = js ''b''\<rparr>],
           totalProb = Fixed False 9799, edge = Fixed False 201, oppVolume24hr = Fin 3000\<rparr>]
   \<and> sumYes (Fin 0) [bucketA\<lparr>outcomePrices := Some (Decimal (49 / 100))\<rparr>,
                      bucketB\<lparr>outcomePrices := Some (Decimal (49 / 100))\<rparr>] = Inr (Fin 98)
   \<and> detectArbitrage [bucketA\<lparr>outcomePrices := Some (Decimal (49 / 100))\<rparr>,
                        bucketB\<lparr>outcomePrices := Some (Decimal (49 / 100))\<rparr>] = Inr []
   \<and> filter (\<lambda>x. otype x \<noteq> Contradiction \<and> eventName x = js ''x spend'')
         [exampleContradiction, exampleUnderbook] = [exampleUnderbook]"
proof -
  let ?a = "[bucketA\<lparr>outcomePrices := Some (Decimal (50 / 100))\<rparr>,
             bucketB\<lparr>outcomePrices := Some (Decimal (4799 / 10000))\<rparr>]"
  let ?b = "[bucketA\<lparr>outcomePrices := Some (Decimal (49 / 100))\<rparr>,
             bucketB\<lparr>outcomePrices := Some (Decimal (49 / 100))\<rparr>]"
  have a: "detectArbitrage ?a =
     Inr [\<lparr>otype = Underbook, eventName = js ''x spend'',
           markets = [\<lparr>legQuestion = js ''Will X spend $50B-$100B?'',
                        yesPrice = toDouble (50 / 100), legSlug = js ''a''\<rparr>,
                      \<lparr>legQuestion = js ''Will X spend $100B-$150B?'',
                        yesPrice = toDouble (4799 / 10000), legSlug = js ''b''\<rparr>],
           totalProb = Fixed False 9799, edge = Fixed False 201, oppVolume24hr = Fin 3000\<rparr>]"
    by (simp add: scan_eval)
  have s: "sumYes (Fin 0) ?b = Inr (Fin 98)"
    by (simp add: scan_eval)
  have b: "detectArbitrage ?b = Inr []"
    by (simp add: scan_eval)
  have gb: "groupByEvent (validMarkets ?b) = Inr [(js ''x spend'', ?b)]"
    by (simp add: scan_eval js_def)
  have "(js ''x spend'', ?b) \<in> set [(js ''x spend'', ?b)]" "2 \<le> length ?b" by simp_all
  from group_thresholds [OF b gb this] s
  have nothing: "filter (\<lambda>x. otype x \<noteq> Contradiction \<and> eventName x = js ''x spend'') [] = []"
    by simp
  have ge: "groupByEvent (validMarkets exampleMarkets) =
     Inr [(js ''x spend'', [bucketA, bucketB, bucketC]),
          (js ''it rain tomorrow'', [rainYes]),
          (js ''it not rain tomorrow'', [rainNo])]"
    by (simp only: example_valid example_groups)
  have t: "sumYes (Fin 0) [bucketA, bucketB, bucketC] = Inr (Fin 75)"
    by (simp add: scan_eval)
  have l: "legs [bucketA, bucketB, bucketC] = Inr (markets exampleUnderbook)"
    by (simp add: example_defs exampleUnderbook_def)
  have "(js ''x spend'', [bucketA, bucketB, bucketC])
      \<in> set [(js ''x spend'', [bucketA, bucketB, bucketC]),
               (js ''it rain tomorrow'', [rainYes]),
               (js ''it not rain tomorrow'', [rainNo])]"
    "2 \<le> length [bucketA, bucketB, bucketC]" by simp_all
  from group_thresholds [OF example_scan ge this] t l
  have "filter (\<lambda>x. otype x \<noteq> Contradiction \<and> eventName x = js ''x spend'')
         [exampleContradiction, exampleUnderbook]
      = [\<lparr>otype = Underbook, eventName = js ''x spend'', markets = markets exampleUnderbook,
           totalProb = toFixed2 (Fin 75), edge = toFixed2 (js_sub (Fin 100) (Fin 75)),
           oppVolume24hr = sumVolume [bucketA, bucketB, bucketC]\<rparr>]"
    by auto
  also have "\<dots> = [exampleUnderbook]"
    by (simp add: exampleUnderbook_def sumVolume_def example_defs number_eval)
  finally show ?thesis using a s b by simp
qed

section \<open>The exclusion filter on the scan\<close>

text \<open>
  C5, as stated, fails: the first keyword of the source is \<open>perform\<close>, not \<open>performer\<close>.
  The question below holds none of the six substrings of the claim and is excluded.
\<close>

theorem perform_is_excluded:
  "shouldExcludeMarket (js ''Will the new fund perform well?'')
   \<and> \<not> (\<exists>k \<in> set (map js [''performer'', ''halftime show'', ''headline'', ''lineup'',
                               ''opening act'', ''surprise guest'']).
          sublist k (toLowerCase (js ''Will the new fund perform well?'')))"
  unfolding js_includes_sublist [symmetric] by (simp add: text_eval)

lemma validMarkets_idem: "validMarkets (validMarkets ms) = validMarkets ms"
  by (simp add: validMarkets_def)

lemma detectArbitrage_valid: "detectArbitrage (validMarkets ms) = detectArbitrage ms"
  by (simp only: detectArbitrage_def validMarkets_idem)

lemma valid_not_excluded: "m \<in> set (validMarkets ms) \<Longrightarrow> \<not> shouldExcludeMarket (question m)"
  by (simp add: validMarkets_def)

lemma member_legs_valid:
  assumes "detectArbitrage ms = Inr opps" and "x \<in> set opps" and "l \<in> set (markets x)"
  shows "\<exists>m \<in> set (validMarkets ms). legQuestion l = question m"
  using detectArbitrage_member [OF assms(1,2)]
proof (elim disjE exE conjE bexE)
  fix g ys
  assume sub: "set (snd g) \<subseteq> set (validMarkets ms)"
    and "checkEvent g = Inr ys" and "x \<in> set ys"
  from checkEvent_member [OF this(2,3)] have "legs (snd g) = Inr (markets x)" by blast
  from legs_Inr [OF this] have "map legQuestion (markets x) = map question (snd g)" by simp
  then have "legQuestion ` set (markets x) = question ` set (snd g)"
    by (metis set_map)
  with assms(3) sub show ?thesis by blast
next
  fix m1 m2 ys
  assume "m1 \<in> set (validMarkets ms)" and "m2 \<in> set (validMarkets ms)"
    and "checkPair m1 m2 = Inr ys" and "x \<in> set ys"
  from checkPair_member [OF this(3,4)] this(1,2) assms(3) show ?thesis by fastforce
qed

text \<open>
  C5, amended: a question is excluded exactly when its lower-cased text contains one of
  \<open>perform\<close>, \<open>halftime show\<close>, \<open>headline\<close>, \<open>lineup\<close>, \<open>opening act\<close>,
  \<open>surprise guest\<close>. The excluded markets are removed before both strategies: the scan
  of a list is the scan of the list without them, and no market of a returned
  opportunity has an excluded question, whatever the price data.
\<close>

theorem excluded_markets_never_emitted:
  "(shouldExcludeMarket q \<longleftrightarrow>
      (\<exists>k \<in> set (map js [''perform'', ''halftime show'', ''headline'', ''lineup'',
                            ''opening act'', ''surprise guest'']).
         sublist k (toLowerCase q)))
   \<and> detectArbitrage ms = detectArbitrage (filter (\<lambda>m. \<not> shouldExcludeMarket (question m)) ms)
   \<and> (detectArbitrage ms = Inr opps \<and> x \<in> set opps \<and> l \<in> set (markets x)
        \<longrightarrow> \<not> shouldExcludeMarket (legQuestion l))"
proof (intro conjI impI)
  show "shouldExcludeMarket q \<longleftrightarrow>
      (\<exists>k \<in> set (map js [''perform'', ''halftime show'', ''headline'', ''lineup'',
                            ''opening act'', ''surprise guest'']).
         sublist k (toLowerCase q))"
    by (simp add: shouldExcludeMarket_def excludeKeywords_def list_ex_iff js_includes_sublist
        Let_def)
  show "detectArbitrage ms = detectArbitrage (filter (\<lambda>m. \<not> shouldExcludeMarket (question m)) ms)"
    by (rule detectArbitrage_valid [unfolded validMarkets_def, symmetric])
  assume "detectArbitrage ms = Inr opps \<and> x \<in> set opps \<and> l \<in> set (markets x)"
  then obtain m where "m \<in> set (validMarkets ms)" and "legQuestion l = question m"
    using member_legs_valid by blast
  then show "\<not> shouldExcludeMarket (legQuestion l)"
    by (simp add: valid_not_excluded)
qed

theorem excluded_markets_never_emitted_witness:
  "shouldExcludeMarket (question halftime)
   \<and> halftime \<in> set exampleMarkets
   \<and> outcomePrices halftime = None
   \<and> detectArbitrage exampleMarkets = Inr [exampleContradiction, exampleUnderbook]
   \<and> \<not> shouldExcludeMarket (js ''Will X spend $50B-$100B?'')"
proof -
  have h: "shouldExcludeMarket (question halftime)"
    by (simp add: halftime_def text_eval)
  have l: "\<lparr>legQuestion = js ''Will X spend $50B-$100B?'', yesPrice = toDouble (30 / 100),
             legSlug = js ''a''\<rparr> \<in> set (markets exampleUnderbook)"
    by (simp add: exampleUnderbook_def)
  have x: "exampleUnderbook \<in> set [exampleContradiction, exampleUnderbook]" by simp
  from excluded_markets_never_emitted [of "question halftime" exampleMarkets
      "[exampleContradiction, exampleUnderbook]" exampleUnderbook
      "\<lparr>legQuestion = js ''Will X spend $50B-$100B?'', yesPrice = toDouble (30 / 100),
        legSlug = js ''a''\<rparr>"] example_scan l x
  have "\<not> shouldExcludeMarket (js ''Will X spend $50B-$100B?'')" by simp
  with h example_scan show ?thesis
    by (simp add: exampleMarkets_def halftime_def)
qed

section \<open>Malformed prices\<close>

text \<open>
  C1: a price field that does not parse is not left out. The three buckets below share
  a key, the \<open>reduce\<close> over the group parses the field of each member, and for the bucket
  without a price field \<open>JSON.parse\<close> throws: the exception leaves \<open>detectArbitrage\<close> and
  the scan returns nothing, where the scan of the two other buckets returns their
  underbook. A price text that is no number gives NaN, and the group is skipped; the
  price text \<open>Infinity\<close> gives an infinite sum, and the group is returned as an overbook.
\<close>

theorem unparsable_price_aborts_scan:
  "detectArbitrage [bucketA, bucketB, bucketC\<lparr>outcomePrices := None\<rparr>] = Inl InvalidPrices
   \<and> detectArbitrage [bucketA, bucketB] =
       Inr [\<lparr>otype = Underbook, eventName = js ''x spend'',
             markets = [\<lparr>legQuestion = js ''Will X spend $50B-$100B?'',
                          yesPrice = toDouble (30 / 100), legSlug = js ''a''\<rparr>,
                        \<lparr>legQuestion = js ''Will X spend $100B-$150B?'',
                          yesPrice = toDouble (25 / 100), legSlug = js ''b''\<rparr>],
             totalProb = Fixed False 5500, edge = Fixed False 4500, oppVolume24hr = Fin 3000\<rparr>]
   \<and> detectArbitrage [bucketA, bucketB, bucketC\<lparr>outcomePrices := Some NoNumeral\<rparr>] = Inr []
   \<and> detectArbitrage [bucketA\<lparr>outcomePrices := Some PlusInfinity\<rparr>, bucketB] =
       Inr [\<lparr>otype = Overbook, eventName = js ''x spend'',
             markets = [\<lparr>legQuestion = js ''Will X spend $50B-$100B?'', yesPrice = PInf,
                          legSlug = js ''a''\<rparr>,
                        \<lparr>legQuestion = js ''Will X spend $100B-$150B?'',
                          yesPrice = toDouble (25 / 100), legSlug = js ''b''\<rparr>],
             totalProb = Spelled PInf, edge = Spelled PInf, oppVolume24hr = Fin 3000\<rparr>]"
  by (simp add: scan_eval)

lemma scan_Inl_cases:
  assumes "detectArbitrage ms = Inl e"
  shows "(e = NotAFunction \<and> (\<exists>m \<in> set (validMarkets ms). extractEventKey (question m) \<in> set inheritedKeys))
       \<or> (e = InvalidPrices \<and> (\<exists>m \<in> set (validMarkets ms). outcomePrices m = None))"
proof (cases "groupByEvent (validMarkets ms)")
  case (Inl e')
  with assms have "e' = e" by (simp add: detectArbitrage_def)
  with Inl groupInto_Inl [of "[]" "validMarkets ms" e] show ?thesis
    by (simp add: groupByEvent_def)
next
  case gs: (Inr gs)
  show ?thesis
  proof (cases "checkEvents (objectEntries gs)")
    case (Inl e')
    with assms gs have e: "e' = e" by (simp add: detectArbitrage_def)
    from checkEvents_Inl [OF Inl] obtain g where g: "g \<in> set gs" and "checkEvent g = Inl e'"
      by (auto simp: set_objectEntries)
    from checkEvent_Inl [OF this(2)] obtain m where "e' = InvalidPrices" and "m \<in> set (snd g)"
      and "outcomePrices m = None" by blast
    with groupByEvent_markets [OF gs g] e show ?thesis by blast
  next
    case es: (Inr es)
    from assms gs es have "findContradictions (validMarkets ms) = Inl e"
      by (auto simp: detectArbitrage_def split: sum.splits)
    from findContradictions_Inl [OF this] obtain m1 m2
      where "m1 \<in> set (validMarkets ms)" and "m2 \<in> set (validMarkets ms)"
        and "checkPair m1 m2 = Inl e" by blast
    with checkPair_Inl [of m1 m2 e] show ?thesis by blast
  qed
qed

lemma parsed_prices_scan_completes:
  assumes "\<forall>m \<in> set (validMarkets ms). outcomePrices m \<noteq> None"
  shows "detectArbitrage ms \<noteq> Inl InvalidPrices
       \<and> ((\<forall>m \<in> set (validMarkets ms). extractEventKey (question m) \<notin> set inheritedKeys)
            \<longrightarrow> (\<exists>opps. detectArbitrage ms = Inr opps))"
proof -
  have no: "detectArbitrage ms \<noteq> Inl InvalidPrices"
    using scan_Inl_cases [of ms InvalidPrices] assms by auto
  have ret: "\<exists>opps. detectArbitrage ms = Inr opps"
    if "\<forall>m \<in> set (validMarkets ms). extractEventKey (question m) \<notin> set inheritedKeys"
  proof (cases "detectArbitrage ms")
    case (Inl e)
    from scan_Inl_cases [OF Inl] that assms show ?thesis by auto
  next
    case (Inr opps)
    then show ?thesis by blast
  qed
  from no ret show ?thesis by blast
qed


end
